theory Spec2Isabelle
  imports Complex_Main
begin

section \<open>The face-matching server: values, numbers and the face database\<close>

text \<open>
  The server keeps the registered faces in the module-level array \<^verbatim>\<open>faceDB\<close> and
  serves two routes on it: \<^verbatim>\<open>POST /api/register-face\<close> (the spec's \<open>register\<close>) and
  \<^verbatim>\<open>POST /api/recognize-face\<close> (the spec's \<open>identify\<close>). Both read their arguments from
  a parsed JSON body, so an argument is any JavaScript value that JSON can carry, or
  \<open>undefined\<close> when the field is absent.
\<close>

subsection \<open>Numbers\<close>

text \<open>
  A Number is \<open>NaN\<close>, an infinity or a finite value; \<open>Fin x\<close> is the Number whose value
  is the real \<open>x\<close>. The two zeros are one value: the program never divides by a computed
  zero, the only place where they differ. The model does not say which reals are values
  of binary64: every statement below is about all reals, so about every finite Number,
  and what rounding does is left to the arithmetic below.
\<close>

datatype jsnum = NaN | Fin real | PosInfinity | NegInfinity

text \<open>
  The engine's arithmetic. \<open>rnd\<close> rounds the exact result of \<^verbatim>\<open>+\<close>, \<^verbatim>\<open>-\<close> and
  \<^verbatim>\<open>/\<close> to a Number. \<open>approx_pow\<close> and \<open>approx_sqrt\<close> are what \<^verbatim>\<open>Math.pow\<close> and
  \<^verbatim>\<open>Math.sqrt\<close> return where the language asks for an implementation-approximated
  value: on a finite non-zero base, and on a finite positive argument.
\<close>

record arith =
  rnd :: "real \<Rightarrow> jsnum"
  approx_pow :: "real \<Rightarrow> nat \<Rightarrow> jsnum"
  approx_sqrt :: "real \<Rightarrow> jsnum"

text \<open>
  Rounding the exact result \<open>x\<close> of an operation: a result of magnitude \<open>2 ^ 1024\<close> or
  more is beyond every finite Number and becomes an infinity.
\<close>

definition js_round :: "arith \<Rightarrow> real \<Rightarrow> jsnum" where
  "js_round ar x =
     (if 2 ^ 1024 \<le> x then PosInfinity
      else if x \<le> - (2 ^ 1024) then NegInfinity
      else rnd ar x)"

fun js_add :: "arith \<Rightarrow> jsnum \<Rightarrow> jsnum \<Rightarrow> jsnum" where
  "js_add ar NaN y = NaN"
| "js_add ar (Fin a) NaN = NaN"
| "js_add ar (Fin a) (Fin b) = js_round ar (a + b)"
| "js_add ar (Fin a) PosInfinity = PosInfinity"
| "js_add ar (Fin a) NegInfinity = NegInfinity"
| "js_add ar PosInfinity NaN = NaN"
| "js_add ar PosInfinity (Fin b) = PosInfinity"
| "js_add ar PosInfinity PosInfinity = PosInfinity"
| "js_add ar PosInfinity NegInfinity = NaN"
| "js_add ar NegInfinity NaN = NaN"
| "js_add ar NegInfinity (Fin b) = NegInfinity"
| "js_add ar NegInfinity PosInfinity = NaN"
| "js_add ar NegInfinity NegInfinity = NegInfinity"

fun js_sub :: "arith \<Rightarrow> jsnum \<Rightarrow> jsnum \<Rightarrow> jsnum" where
  "js_sub ar NaN y = NaN"
| "js_sub ar (Fin a) NaN = NaN"
| "js_sub ar (Fin a) (Fin b) = js_round ar (a - b)"
| "js_sub ar (Fin a) PosInfinity = NegInfinity"
| "js_sub ar (Fin a) NegInfinity = PosInfinity"
| "js_sub ar PosInfinity NaN = NaN"
| "js_sub ar PosInfinity (Fin b) = PosInfinity"
| "js_sub ar PosInfinity PosInfinity = NaN"
| "js_sub ar PosInfinity NegInfinity = PosInfinity"
| "js_sub ar NegInfinity NaN = NaN"
| "js_sub ar NegInfinity (Fin b) = NegInfinity"
| "js_sub ar NegInfinity PosInfinity = NegInfinity"
| "js_sub ar NegInfinity NegInfinity = NaN"

text \<open>Division; a zero divisor is the positive zero.\<close>

fun js_div :: "arith \<Rightarrow> jsnum \<Rightarrow> jsnum \<Rightarrow> jsnum" where
  "js_div ar NaN y = NaN"
| "js_div ar (Fin a) NaN = NaN"
| "js_div ar (Fin a) (Fin b) =
     (if b \<noteq> 0 then js_round ar (a / b)
      else if a = 0 then NaN
      else if 0 < a then PosInfinity else NegInfinity)"
| "js_div ar (Fin a) PosInfinity = Fin 0"
| "js_div ar (Fin a) NegInfinity = Fin 0"
| "js_div ar PosInfinity NaN = NaN"
| "js_div ar PosInfinity (Fin b) = (if 0 \<le> b then PosInfinity else NegInfinity)"
| "js_div ar PosInfinity PosInfinity = NaN"
| "js_div ar PosInfinity NegInfinity = NaN"
| "js_div ar NegInfinity NaN = NaN"
| "js_div ar NegInfinity (Fin b) = (if 0 \<le> b then NegInfinity else PosInfinity)"
| "js_div ar NegInfinity PosInfinity = NaN"
| "js_div ar NegInfinity NegInfinity = NaN"

text \<open>\<^verbatim>\<open>x < y\<close> on numbers: false as soon as an operand is \<open>NaN\<close>.\<close>

fun js_less :: "jsnum \<Rightarrow> jsnum \<Rightarrow> bool" where
  "js_less (Fin a) (Fin b) = (a < b)"
| "js_less (Fin a) PosInfinity = True"
| "js_less NegInfinity (Fin b) = True"
| "js_less NegInfinity PosInfinity = True"
| "js_less _ _ = False"

text \<open>
  \<^verbatim>\<open>Math.pow(x, n)\<close> for a natural exponent \<open>n\<close>. The language fixes the result for
  exponent zero, for a base that is \<open>NaN\<close>, an infinity or a zero; elsewhere it is the
  engine's approximation.
\<close>

fun Math_pow :: "arith \<Rightarrow> jsnum \<Rightarrow> nat \<Rightarrow> jsnum" where
  "Math_pow ar NaN n = (if n = 0 then Fin 1 else NaN)"
| "Math_pow ar (Fin a) n =
     (if n = 0 then Fin 1 else if a = 0 then Fin 0 else approx_pow ar a n)"
| "Math_pow ar PosInfinity n = (if n = 0 then Fin 1 else PosInfinity)"
| "Math_pow ar NegInfinity n =
     (if n = 0 then Fin 1 else if even n then PosInfinity else NegInfinity)"

text \<open>
  \<^verbatim>\<open>Math.sqrt\<close>: fixed on \<open>NaN\<close>, the infinities, zero and the negative numbers; the
  engine's approximation on a positive number.
\<close>

fun Math_sqrt :: "arith \<Rightarrow> jsnum \<Rightarrow> jsnum" where
  "Math_sqrt ar NaN = NaN"
| "Math_sqrt ar (Fin a) =
     (if a < 0 then NaN else if a = 0 then Fin 0 else approx_sqrt ar a)"
| "Math_sqrt ar PosInfinity = PosInfinity"
| "Math_sqrt ar NegInfinity = NaN"

text \<open>
  The Number value of the literal \<^verbatim>\<open>0.6\<close>: the binary64 number nearest to 3/5, which
  is \<open>5404319552844595 / 2 ^ 53\<close>, a little below 3/5.
\<close>

definition Number_0_6 :: real where
  "Number_0_6 = 5404319552844595 / 9007199254740992"

subsection \<open>JavaScript values\<close>

text \<open>
  A number of a JSON body is finite or, for a literal beyond the range of binary64 such
  as \<^verbatim>\<open>1e999\<close>, an infinity.
\<close>

datatype jsval =
    JUndefined
  | JNull
  | JBool bool
  | JNum jsnum
  | JStr string
  | JArr "jsval list"
  | JObj "(string \<times> jsval) list"

datatype error = TypeError

text \<open>The truth value of a value in a condition (\<^verbatim>\<open>!x\<close> is its negation).\<close>

fun truthy :: "jsval \<Rightarrow> bool" where
  "truthy JUndefined = False"
| "truthy JNull = False"
| "truthy (JBool b) = b"
| "truthy (JNum x) = (x \<noteq> NaN \<and> x \<noteq> Fin 0)"
| "truthy (JStr s) = (s \<noteq> [])"
| "truthy (JArr xs) = True"
| "truthy (JObj kvs) = True"

text \<open>
  \<^verbatim>\<open>a === b\<close>: primitives are compared by value, arrays and objects by identity. The
  two operands always come from two different request bodies, so two arrays or two
  objects are never the same object.
\<close>

fun strict_eq :: "jsval \<Rightarrow> jsval \<Rightarrow> bool" where
  "strict_eq JUndefined JUndefined = True"
| "strict_eq JNull JNull = True"
| "strict_eq (JBool a) (JBool b) = (a = b)"
| "strict_eq (JNum a) (JNum b) = (a = b \<and> a \<noteq> NaN)"
| "strict_eq (JStr a) (JStr b) = (a = b)"
| "strict_eq _ _ = False"

fun Array_isArray :: "jsval \<Rightarrow> bool" where
  "Array_isArray (JArr xs) = True"
| "Array_isArray _ = False"

fun elements :: "jsval \<Rightarrow> jsval list" where
  "elements (JArr xs) = xs"
| "elements _ = []"

text \<open>An array of finite numbers: the wire form of a face descriptor.\<close>

definition emb :: "real list \<Rightarrow> jsval" where
  "emb xs = JArr (map (\<lambda>x. JNum (Fin x)) xs)"

subsection \<open>Reading \<^verbatim>\<open>d[i]\<close>\<close>

text \<open>
  The property key of the index \<open>i\<close> is its decimal numeral without leading zeros.
  \<open>index_key\<close> reads such a key back, so that an object parsed from
  \<^verbatim>\<open>{"0": 1, "1": 2}\<close> answers \<^verbatim>\<open>d[0]\<close> and \<^verbatim>\<open>d[1]\<close>.
\<close>

fun digits_value :: "string \<Rightarrow> nat \<Rightarrow> nat option" where
  "digits_value [] acc = Some acc"
| "digits_value (c # cs) acc =
     (if 48 \<le> (of_char c :: nat) \<and> (of_char c :: nat) \<le> 57
      then digits_value cs (10 * acc + (of_char c - 48))
      else None)"

definition index_key :: "string \<Rightarrow> nat option" where
  "index_key k =
     (if k = [] \<or> (1 < length k \<and> hd k = CHR ''0'') then None else digits_value k 0)"

text \<open>
  \<^verbatim>\<open>d[i]\<close> throws on \<open>undefined\<close> and \<open>null\<close>, is \<open>undefined\<close> on a number or a
  boolean and past the end of an array or a string, and on an object is the value of the
  last member whose key is the index.
\<close>

fun get_index :: "jsval \<Rightarrow> nat \<Rightarrow> error + jsval" where
  "get_index JUndefined i = Inl TypeError"
| "get_index JNull i = Inl TypeError"
| "get_index (JBool b) i = Inr JUndefined"
| "get_index (JNum x) i = Inr JUndefined"
| "get_index (JStr s) i = Inr (if i < length s then JStr [s ! i] else JUndefined)"
| "get_index (JArr xs) i = Inr (if i < length xs then xs ! i else JUndefined)"
| "get_index (JObj kvs) i =
     Inr (case filter (\<lambda>(k, v). index_key k = Some i) kvs of
            [] \<Rightarrow> JUndefined
          | p # ps \<Rightarrow> snd (last (p # ps)))"

subsection \<open>Converting an operand to a number\<close>

text \<open>
  The operand conversion of the arithmetic operators. What a string converts to is
  decided by the language's string-to-number grammar, and an array or an object is
  converted through its \<^verbatim>\<open>valueOf\<close> and \<^verbatim>\<open>toString\<close>, which throws a \<open>TypeError\<close> when
  neither yields a primitive (as for the parsed \<^verbatim>\<open>{"toString": null}\<close>). The model
  takes that conversion as the parameter \<open>conv\<close> and fixes the other cases.
\<close>

fun ToNumber :: "(jsval \<Rightarrow> error + jsnum) \<Rightarrow> jsval \<Rightarrow> error + jsnum" where
  "ToNumber conv JUndefined = Inr NaN"
| "ToNumber conv JNull = Inr (Fin 0)"
| "ToNumber conv (JBool b) = Inr (Fin (if b then 1 else 0))"
| "ToNumber conv (JNum x) = Inr x"
| "ToNumber conv (JStr s) = conv (JStr s)"
| "ToNumber conv (JArr xs) = conv (JArr xs)"
| "ToNumber conv (JObj kvs) = conv (JObj kvs)"

subsection \<open>The face database\<close>

text \<open>\<^verbatim>\<open>let faceDB = []; // { name, descriptor }\<close>\<close>

record person =
  name :: jsval
  descriptor :: jsval

text \<open>The running best of the scan: \<^verbatim>\<open>{ name: null, distance: Infinity }\<close> at the start.\<close>

record bestMatch =
  name :: jsval
  distance :: jsnum

section \<open>The operations\<close>

subsection \<open>\<^verbatim>\<open>euclideanDistance(d1, d2)\<close>\<close>

text \<open>
  The loop runs \<open>i\<close> over \<open>0 ..< d1.length\<close> and adds
  \<^verbatim>\<open>Math.pow(d1[i] - d2[i], 2)\<close> to \<open>sum\<close> (here \<open>s\<close>). Its only caller passes an array as
  \<open>d1\<close>, given here by its elements, and a stored descriptor, any value, as \<open>d2\<close>. The
  two reads come first, then the conversions of the two operands; any of them may throw.
\<close>

fun sum_loop ::
  "arith \<Rightarrow> (jsval \<Rightarrow> error + jsnum) \<Rightarrow> jsval list \<Rightarrow> jsval \<Rightarrow> nat list \<Rightarrow> jsnum
     \<Rightarrow> error + jsnum" where
  "sum_loop ar conv d1 d2 [] s = Inr s"
| "sum_loop ar conv d1 d2 (i # is) s =
     (case get_index d2 i of
        Inl e \<Rightarrow> Inl e
      | Inr v \<Rightarrow>
          (case ToNumber conv (d1 ! i) of
             Inl e \<Rightarrow> Inl e
           | Inr x \<Rightarrow>
               (case ToNumber conv v of
                  Inl e \<Rightarrow> Inl e
                | Inr y \<Rightarrow>
                    sum_loop ar conv d1 d2 is
                      (js_add ar s (Math_pow ar (js_sub ar x y) 2)))))"

definition euclideanDistance ::
  "arith \<Rightarrow> (jsval \<Rightarrow> error + jsnum) \<Rightarrow> jsval list \<Rightarrow> jsval \<Rightarrow> error + jsnum" where
  "euclideanDistance ar conv d1 d2 =
     (case sum_loop ar conv d1 d2 [0..<length d1] (Fin 0) of
        Inl e \<Rightarrow> Inl e
      | Inr s \<Rightarrow> Inr (Math_sqrt ar s))"

subsection \<open>\<^verbatim>\<open>POST /api/register-face\<close>\<close>

datatype register_response =
    Register400
  | Register409
  | Register200 jsval nat

definition register_face ::
  "person list \<Rightarrow> jsval \<Rightarrow> jsval \<Rightarrow> register_response \<times> person list" where
  "register_face faceDB req_name req_descriptor =
     (if \<not> truthy req_name \<or> \<not> truthy req_descriptor then (Register400, faceDB)
      else if list_ex (\<lambda>entry. strict_eq (person.name entry) req_name) faceDB
        then (Register409, faceDB)
      else
        let faceDB' = faceDB @ [\<lparr>person.name = req_name, descriptor = req_descriptor\<rparr>]
        in (Register200 req_name (length faceDB'), faceDB'))"

subsection \<open>\<^verbatim>\<open>POST /api/recognize-face\<close>\<close>

text \<open>
  \<^verbatim>\<open>faceDB.forEach(person => ...)\<close>: a record replaces the running best when its
  distance is below \<^verbatim>\<open>0.6\<close> and below the best distance so far. An exception thrown by
  the distance computation leaves the loop.
\<close>

fun forEach ::
  "arith \<Rightarrow> (jsval \<Rightarrow> error + jsnum) \<Rightarrow> jsval list \<Rightarrow> person list \<Rightarrow> bestMatch
     \<Rightarrow> error + bestMatch" where
  "forEach ar conv req_descriptor [] best = Inr best"
| "forEach ar conv req_descriptor (p # faceDB) best =
     (case euclideanDistance ar conv req_descriptor (person.descriptor p) of
        Inl e \<Rightarrow> Inl e
      | Inr d \<Rightarrow>
          forEach ar conv req_descriptor faceDB
            (if js_less d (Fin Number_0_6) \<and> js_less d (bestMatch.distance best)
             then \<lparr>bestMatch.name = person.name p, distance = d\<rparr>
             else best))"

definition scan ::
  "arith \<Rightarrow> (jsval \<Rightarrow> error + jsnum) \<Rightarrow> person list \<Rightarrow> jsval list \<Rightarrow> error + bestMatch" where
  "scan ar conv faceDB req_descriptor =
     forEach ar conv req_descriptor faceDB \<lparr>bestMatch.name = JNull, distance = PosInfinity\<rparr>"

text \<open>
  The responses: status 400, the framework's status 500 for an exception that leaves the
  handler, \<^verbatim>\<open>{ recognized: true, name, confidence }\<close> and \<^verbatim>\<open>{ recognized: false }\<close>.
\<close>

datatype recognize_response =
    Recognize400
  | Recognize500
  | Recognized jsval jsnum
  | NoMatch

definition confidence :: "arith \<Rightarrow> jsnum \<Rightarrow> jsnum" where
  "confidence ar d = js_sub ar (Fin 1) (js_div ar d (Fin Number_0_6))"

definition recognize_face ::
  "arith \<Rightarrow> (jsval \<Rightarrow> error + jsnum) \<Rightarrow> person list \<Rightarrow> jsval
     \<Rightarrow> recognize_response \<times> person list" where
  "recognize_face ar conv faceDB req_descriptor =
     (if \<not> truthy req_descriptor \<or> \<not> Array_isArray req_descriptor
      then (Recognize400, faceDB)
      else
        case scan ar conv faceDB (elements req_descriptor) of
          Inl e \<Rightarrow> (Recognize500, faceDB)
        | Inr best \<Rightarrow>
            (if truthy (bestMatch.name best)
             then Recognized (bestMatch.name best) (confidence ar (bestMatch.distance best))
             else NoMatch,
             faceDB))"

subsection \<open>The capture form\<close>

text \<open>
  \<^verbatim>\<open>captureAndSend\<close> of the client posts to \<^verbatim>\<open>/api/register-face\<close>. It returns
  early, without a request, when the name is empty after \<^verbatim>\<open>name.trim()\<close>, when the
  camera gives no video and when the face model detects no face; otherwise it posts the
  name and \<^verbatim>\<open>Array.from(detection.descriptor)\<close>. The camera and the face model are
  inputs of the model. \<open>trim\<close> removes the whitespace characters below code 256.
\<close>

fun is_space :: "char \<Rightarrow> bool" where
  "is_space c =
     (c \<in> set [CHR '' '', CHR 0x09, CHR 0x0A, CHR 0x0B, CHR 0x0C, CHR 0x0D, CHR 0xA0])"

definition trim :: "string \<Rightarrow> string" where
  "trim s = rev (dropWhile is_space (rev (dropWhile is_space s)))"

datatype capture_outcome =
    EnterName
  | CameraNotReady
  | NoFaceDetected
  | Posted jsval jsval

definition captureAndSend :: "string \<Rightarrow> bool \<Rightarrow> real list option \<Rightarrow> capture_outcome" where
  "captureAndSend input_name video detection =
     (if trim input_name = [] then EnterName
      else if \<not> video then CameraNotReady
      else
        case detection of
          None \<Rightarrow> NoFaceDetected
        | Some detected \<Rightarrow> Posted (JStr input_name) (emb detected))"

section \<open>Vocabulary of the specification\<close>

text \<open>
  The specification speaks of embeddings, real vectors of a fixed dimension \<open>D\<close>, of
  labels, strings, and of a store of (label, embedding) records. On the wire an embedding
  \<open>r\<close> is the array \<open>emb r\<close> and a label \<open>l\<close> is the string \<open>JStr l\<close>. The server names
  no dimension; \<open>D\<close> is the length of the descriptors the client's face model produces.
\<close>

definition D :: nat where
  "D = 128"

text \<open>The Euclidean distance in the specification's words, over \<open>n\<close> dimensions.\<close>

definition spec_distance :: "nat \<Rightarrow> real list \<Rightarrow> real list \<Rightarrow> real" where
  "spec_distance n q r = sqrt (\<Sum>i<n. (q ! i - r ! i)\<^sup>2)"

text \<open>
  The confidence in the specification's words: \<open>1 - distance / threshold\<close> in the
  arithmetic of Numbers, clamped to the unit interval.
\<close>

definition clamp01 :: "jsnum \<Rightarrow> jsnum" where
  "clamp01 x = (if js_less x (Fin 0) then Fin 0 else if js_less (Fin 1) x then Fin 1 else x)"

definition spec_confidence :: "arith \<Rightarrow> jsnum \<Rightarrow> jsnum \<Rightarrow> jsnum" where
  "spec_confidence ar d t = clamp01 (js_sub ar (Fin 1) (js_div ar d t))"

text \<open>A sequence of register calls, each given by its body's name and descriptor.\<close>

fun register_all :: "person list \<Rightarrow> (jsval \<times> jsval) list \<Rightarrow> person list" where
  "register_all faceDB [] = faceDB"
| "register_all faceDB ((n, d) # calls) = register_all (snd (register_face faceDB n d)) calls"

section \<open>What the proofs use of the arithmetic\<close>

text \<open>
  The claims about values need four facts of the engine's arithmetic: rounding never
  gives \<open>NaN\<close>, keeps 0 and 1, which are Numbers, and is monotone; and the square root of
  a positive number is never below zero. Rounding to nearest has the first three.
\<close>

definition number_arith :: "arith \<Rightarrow> bool" where
  "number_arith ar \<longleftrightarrow>
     rnd ar 0 = Fin 0 \<and> rnd ar 1 = Fin 1 \<and>
     (\<forall>x. rnd ar x \<noteq> NaN) \<and>
     (\<forall>x y. x \<le> y \<longrightarrow> \<not> js_less (rnd ar y) (rnd ar x)) \<and>
     (\<forall>x>0. \<not> js_less (approx_sqrt ar x) (Fin 0))"

text \<open>
  For the concrete examples: the arithmetic without rounding, and two conversions, one
  that throws on no value and one that throws on the parsed \<^verbatim>\<open>{"toString": null}\<close>.
\<close>

definition exact_arith :: arith where
  "exact_arith =
     \<lparr>rnd = Fin, approx_pow = (\<lambda>a n. Fin (a ^ n)), approx_sqrt = (\<lambda>a. Fin (sqrt a))\<rparr>"

text \<open>The largest finite Number, \<^verbatim>\<open>1.7976931348623157e308\<close> as a literal.\<close>

definition Number_MAX_VALUE :: real where
  "Number_MAX_VALUE = 2 ^ 1024 - 2 ^ 971"

definition nan_conv :: "jsval \<Rightarrow> error + jsnum" where
  "nan_conv v = Inr NaN"

definition throwing_conv :: "jsval \<Rightarrow> error + jsnum" where
  "throwing_conv v = (if v = JObj [(''toString'', JNull)] then Inl TypeError else Inr NaN)"

section \<open>Notions used in the proofs\<close>

text \<open>
  What every database reached by register calls satisfies: names and descriptors are
  truthy, and no two names are \<^verbatim>\<open>===\<close>.
\<close>

definition faceDB_inv :: "person list \<Rightarrow> bool" where
  "faceDB_inv db \<longleftrightarrow>
     (\<forall>p\<in>set db. truthy (person.name p) \<and> truthy (person.descriptor p)) \<and>
     (\<forall>i<length db. \<forall>j<length db.
        i \<noteq> j \<longrightarrow> \<not> strict_eq (person.name (db ! i)) (person.name (db ! j)))"

text \<open>The distance of a record from the query, where the computation does not throw.\<close>

definition distance_to ::
  "arith \<Rightarrow> (jsval \<Rightarrow> error + jsnum) \<Rightarrow> jsval list \<Rightarrow> person \<Rightarrow> jsnum" where
  "distance_to ar conv q p =
     (case euclideanDistance ar conv q (person.descriptor p) of Inl e \<Rightarrow> NaN | Inr d \<Rightarrow> d)"

text \<open>
  Record \<open>i\<close> is the first of the nearest records, and its distance is below the
  threshold.
\<close>

definition first_best ::
  "arith \<Rightarrow> (jsval \<Rightarrow> error + jsnum) \<Rightarrow> jsval list \<Rightarrow> person list \<Rightarrow> nat \<Rightarrow> bool" where
  "first_best ar conv q db i \<longleftrightarrow>
     i < length db \<and> js_less (distance_to ar conv q (db ! i)) (Fin Number_0_6) \<and>
     (\<forall>k<length db.
        \<not> js_less (distance_to ar conv q (db ! k)) (distance_to ar conv q (db ! i))) \<and>
     (\<forall>k<i. distance_to ar conv q (db ! k) \<noteq> distance_to ar conv q (db ! i))"

section \<open>Lemmas\<close>

subsection \<open>The arithmetic\<close>

lemma js_add_NaN_right [simp]: "js_add ar x NaN = NaN"
  by (cases x) simp_all

lemma js_sub_NaN_right [simp]: "js_sub ar x NaN = NaN"
  by (cases x) simp_all

lemma js_less_trans: "js_less a b \<Longrightarrow> js_less b c \<Longrightarrow> js_less a c"
  by (cases a; cases b; cases c) simp_all

lemma js_less_irrefl [simp]: "\<not> js_less a a"
  by (cases a) simp_all

lemma js_less_PosInfinity: "js_less a (Fin t) \<Longrightarrow> js_less a PosInfinity"
  by (cases a) simp_all


lemma Number_0_6_pos: "0 < Number_0_6"
  by (simp add: Number_0_6_def)

lemma js_round_small: "\<bar>x\<bar> \<le> 1 \<Longrightarrow> js_round ar x = rnd ar x"
proof -
  assume a: "\<bar>x\<bar> \<le> 1"
  have "(1::real) < 2 ^ 1024" by simp
  then have "\<not> 2 ^ 1024 \<le> x" "\<not> x \<le> - (2 ^ 1024)" using a by linarith+
  then show ?thesis by (simp add: js_round_def)
qed

lemma rnd_unit:
  assumes "number_arith ar" and "0 \<le> x" and "x \<le> 1"
  shows "\<exists>u. rnd ar x = Fin u \<and> 0 \<le> u \<and> u \<le> 1"
proof -
  have lo: "\<not> js_less (rnd ar x) (Fin 0)"
    using assms(1,2) unfolding number_arith_def by metis
  have hi: "\<not> js_less (Fin 1) (rnd ar x)"
    using assms(1,3) unfolding number_arith_def by metis
  have nn: "rnd ar x \<noteq> NaN"
    using assms(1) by (simp add: number_arith_def)
  show ?thesis
    using lo hi nn by (cases "rnd ar x") auto
qed

lemma Math_sqrt_range: "number_arith ar \<Longrightarrow> \<not> js_less (Math_sqrt ar s) (Fin 0)"
  by (cases s) (auto simp: number_arith_def)

subsection \<open>The distance loop\<close>

lemma sum_loop_append:
  "sum_loop ar conv d1 d2 (is @ js) s =
     (case sum_loop ar conv d1 d2 is s of
        Inl e \<Rightarrow> Inl e
      | Inr s' \<Rightarrow> sum_loop ar conv d1 d2 js s')"
  by (induction "is" arbitrary: s) (auto split: sum.splits)

lemma error_is_TypeError: "(e :: error) = TypeError"
  by (cases e) simp

lemma Inl_TypeError: "Inl e = (Inl TypeError :: error + 'a)"
  by (cases e) simp

lemma sum_loop_NaN:
  "sum_loop ar conv d1 d2 is NaN = Inr NaN \<or> sum_loop ar conv d1 d2 is NaN = Inl TypeError"
proof (induction "is")
  case Nil
  then show ?case by simp
next
  case (Cons i "is")
  then show ?case
    by (auto split: sum.splits simp: error_is_TypeError)
qed

lemma sum_loop_take:
  "\<forall>i\<in>set is. i < n \<Longrightarrow>
   sum_loop ar conv d1 (JArr (take n r)) is s = sum_loop ar conv d1 (JArr r) is s"
  by (induction "is" arbitrary: s) (auto split: sum.splits)

lemma euclideanDistance_take:
  "euclideanDistance ar conv q (JArr (take (length q) r)) = euclideanDistance ar conv q (JArr r)"
  by (simp add: euclideanDistance_def sum_loop_take)

lemma upt_split_at:
  assumes "m < n"
  shows "[0..<n] = [0..<m] @ m # [Suc m..<n]"
proof -
  have "[0..<n] = [0..<m] @ [m..<n]"
    using assms upt_add_eq_append [of 0 m "n - m"] by simp
  then show ?thesis using assms by (simp add: upt_conv_Cons)
qed

lemma euclideanDistance_short:
  assumes "length r < length q"
  shows "euclideanDistance ar conv q (JArr r) = Inr NaN \<or>
         euclideanDistance ar conv q (JArr r) = Inl TypeError"
proof (cases "sum_loop ar conv q (JArr r) [0..<length r] (Fin 0)")
  case (Inl e)
  then show ?thesis
    by (simp add: euclideanDistance_def upt_split_at [OF assms] sum_loop_append Inl_TypeError [of e])
next
  case (Inr s')
  show ?thesis
  proof (cases "ToNumber conv (q ! length r)")
    case (Inl e)
    then show ?thesis
      using Inr
      by (simp add: euclideanDistance_def upt_split_at [OF assms] sum_loop_append
          Inl_TypeError [of e])
  next
    case x: (Inr x)
    have "sum_loop ar conv q (JArr r) [0..<length q] (Fin 0) =
        sum_loop ar conv q (JArr r) [Suc (length r)..<length q] NaN"
      using Inr x by (simp add: upt_split_at [OF assms] sum_loop_append)
    then show ?thesis
      using sum_loop_NaN [of ar conv q "JArr r" "[Suc (length r)..<length q]"]
      by (auto simp: euclideanDistance_def)
  qed
qed

text \<open>With a conversion that never throws, no distance to an array throws.\<close>

lemma ToNumber_total:
  "\<forall>v. conv v \<noteq> Inl TypeError \<Longrightarrow> \<exists>x. ToNumber conv v = Inr x"
proof -
  assume nt: "\<forall>v. conv v \<noteq> Inl TypeError"
  have "\<exists>x. conv w = Inr x" for w
  proof (cases "conv w")
    case (Inl e)
    then have "conv w = Inl TypeError"
      using error_is_TypeError [of e] by simp
    then show ?thesis using nt by blast
  next
    case (Inr x)
    then show ?thesis by blast
  qed
  then show ?thesis by (cases v) auto
qed

lemma sum_loop_arr_total:
  assumes "\<forall>v. conv v \<noteq> Inl TypeError"
  shows "\<exists>s'. sum_loop ar conv d1 (JArr r) is s = Inr s'"
proof (induction "is" arbitrary: s)
  case Nil
  then show ?case by simp
next
  case (Cons i "is")
  obtain v where v: "get_index (JArr r) i = Inr v" by simp
  obtain x where x: "ToNumber conv (d1 ! i) = Inr x"
    using ToNumber_total [OF assms] by blast
  obtain y where y: "ToNumber conv v = Inr y"
    using ToNumber_total [OF assms] by blast
  show ?case using Cons v x y by simp
qed

lemma euclideanDistance_arr_short:
  assumes "\<forall>v. conv v \<noteq> Inl TypeError" and "length r < length q"
  shows "euclideanDistance ar conv q (JArr r) = Inr NaN"
proof -
  obtain s' where "sum_loop ar conv q (JArr r) [0..<length q] (Fin 0) = Inr s'"
    using sum_loop_arr_total [OF assms(1)] by blast
  then have "euclideanDistance ar conv q (JArr r) \<noteq> Inl TypeError"
    by (simp add: euclideanDistance_def)
  then show ?thesis using euclideanDistance_short [OF assms(2)] by blast
qed

text \<open>Arrays of numbers: no read and no conversion throws.\<close>

lemma sum_loop_nums_total:
  "\<forall>i\<in>set is. i < length xs \<Longrightarrow>
   \<exists>s'. sum_loop ar conv (map JNum xs) (JArr (map JNum ys)) is s = Inr s'"
  by (induction "is" arbitrary: s) auto

lemma euclideanDistance_nums_total:
  "\<exists>d. euclideanDistance ar conv (map JNum xs) (JArr (map JNum ys)) = Inr d"
proof -
  have "\<forall>i\<in>set [0..<length (map JNum xs)]. i < length xs" by simp
  then obtain s' where
    "sum_loop ar conv (map JNum xs) (JArr (map JNum ys)) [0..<length (map JNum xs)] (Fin 0) = Inr s'"
    using sum_loop_nums_total by blast
  then show ?thesis by (simp add: euclideanDistance_def)
qed

lemma euclideanDistance_nums_short:
  assumes "length ys < length xs"
  shows "euclideanDistance ar conv (map JNum xs) (JArr (map JNum ys)) = Inr NaN"
  using euclideanDistance_short [of "map JNum ys" "map JNum xs" ar conv]
    euclideanDistance_nums_total [of ar conv xs ys] assms
  by auto

text \<open>When every operation on the values met is exact, the loop sums the squares.\<close>

lemma sum_loop_exact:
  assumes "k \<le> length q" and "k \<le> length r"
    and "\<forall>i<k. js_sub ar (Fin (q ! i)) (Fin (r ! i)) = Fin (q ! i - r ! i)"
    and "\<forall>i<k. Math_pow ar (Fin (q ! i - r ! i)) 2 = Fin ((q ! i - r ! i)\<^sup>2)"
    and "\<forall>i<k. js_add ar (Fin (\<Sum>j<i. (q ! j - r ! j)\<^sup>2)) (Fin ((q ! i - r ! i)\<^sup>2)) =
           Fin (\<Sum>j<Suc i. (q ! j - r ! j)\<^sup>2)"
  shows "sum_loop ar conv (map (\<lambda>x. JNum (Fin x)) q) (JArr (map (\<lambda>x. JNum (Fin x)) r))
           [0..<k] (Fin 0) = Inr (Fin (\<Sum>i<k. (q ! i - r ! i)\<^sup>2))"
  using assms
proof (induction k)
  case 0
  then show ?case by simp
next
  case (Suc k)
  then have IH: "sum_loop ar conv (map (\<lambda>x. JNum (Fin x)) q) (JArr (map (\<lambda>x. JNum (Fin x)) r))
           [0..<k] (Fin 0) = Inr (Fin (\<Sum>i<k. (q ! i - r ! i)\<^sup>2))"
    by simp
  have k: "k < length q" "k < length r" using Suc.prems by simp_all
  have s1: "js_sub ar (Fin (q ! k)) (Fin (r ! k)) = Fin (q ! k - r ! k)"
    using Suc.prems(3) by blast
  have s2: "Math_pow ar (Fin (q ! k - r ! k)) 2 = Fin ((q ! k - r ! k)\<^sup>2)"
    using Suc.prems(4) by blast
  have s3: "js_add ar (Fin (\<Sum>j<k. (q ! j - r ! j)\<^sup>2)) (Fin ((q ! k - r ! k)\<^sup>2)) =
           Fin (\<Sum>j<Suc k. (q ! j - r ! j)\<^sup>2)"
    using Suc.prems(5) by blast
  show ?case
    using k by (simp add: sum_loop_append IH s1 s2 s3 del: js_sub.simps js_add.simps Math_pow.simps)
qed

text \<open>The distance of an embedding from itself.\<close>

lemma sum_loop_self:
  assumes "number_arith ar" and "k \<le> length r"
  shows "sum_loop ar conv (map (\<lambda>x. JNum (Fin x)) r) (JArr (map (\<lambda>x. JNum (Fin x)) r))
           [0..<k] (Fin 0) = Inr (Fin 0)"
  using assms(2)
proof (induction k)
  case 0
  then show ?case by simp
next
  case (Suc k)
  have r0: "js_round ar 0 = Fin 0"
    using assms(1) js_round_small [of 0 ar] by (simp add: number_arith_def)
  show ?case
    using Suc by (simp add: sum_loop_append r0)
qed

lemma euclideanDistance_self:
  "number_arith ar \<Longrightarrow>
   euclideanDistance ar conv (map (\<lambda>x. JNum (Fin x)) r) (emb r) = Inr (Fin 0)"
  by (simp add: euclideanDistance_def emb_def sum_loop_self)

lemma euclideanDistance_range:
  "number_arith ar \<Longrightarrow> euclideanDistance ar conv q d2 = Inr d \<Longrightarrow> \<not> js_less d (Fin 0)"
  using Math_sqrt_range by (auto simp: euclideanDistance_def split: sum.splits)

subsection \<open>The scan\<close>

lemma forEach_append:
  "forEach ar conv q (xs @ ys) b =
     (case forEach ar conv q xs b of Inl e \<Rightarrow> Inl e | Inr b' \<Rightarrow> forEach ar conv q ys b')"
  by (induction xs arbitrary: b) (auto split: sum.splits)

text \<open>A scan that ends without an exception has computed every distance.\<close>

lemma forEach_Inr_all:
  "forEach ar conv q db b = Inr b' \<Longrightarrow>
   \<forall>p\<in>set db. \<exists>d. euclideanDistance ar conv q (person.descriptor p) = Inr d"
  by (induction db arbitrary: b) (auto split: sum.splits)

lemma distance_to_Inr:
  "euclideanDistance ar conv q (person.descriptor p) = Inr d \<Longrightarrow> distance_to ar conv q p = d"
  by (simp add: distance_to_def)

lemma scan_cases:
  assumes "\<forall>p\<in>set db. \<exists>d. euclideanDistance ar conv q (person.descriptor p) = Inr d"
  shows "(scan ar conv db q = Inr \<lparr>bestMatch.name = JNull, distance = PosInfinity\<rparr> \<and>
          (\<forall>p\<in>set db. \<not> js_less (distance_to ar conv q p) (Fin Number_0_6))) \<or>
         (\<exists>i. first_best ar conv q db i \<and>
              scan ar conv db q =
                Inr \<lparr>bestMatch.name = person.name (db ! i), distance = distance_to ar conv q (db ! i)\<rparr>)"
  using assms
proof (induction db rule: rev_induct)
  case Nil
  then show ?case by (simp add: scan_def)
next
  case (snoc x db)
  let ?d = "distance_to ar conv q"
  obtain dx where dx: "euclideanDistance ar conv q (person.descriptor x) = Inr dx"
    using snoc.prems by auto
  then have dx': "?d x = dx" by (simp add: distance_to_def)
  from snoc have "(scan ar conv db q = Inr \<lparr>bestMatch.name = JNull, distance = PosInfinity\<rparr> \<and>
          (\<forall>p\<in>set db. \<not> js_less (?d p) (Fin Number_0_6))) \<or>
         (\<exists>i. first_best ar conv q db i \<and>
              scan ar conv db q = Inr \<lparr>bestMatch.name = person.name (db ! i), distance = ?d (db ! i)\<rparr>)"
    by simp
  then show ?case
  proof (elim disjE conjE exE)
    assume none: "scan ar conv db q = Inr \<lparr>bestMatch.name = JNull, distance = PosInfinity\<rparr>"
      and rej: "\<forall>p\<in>set db. \<not> js_less (?d p) (Fin Number_0_6)"
    show ?thesis
    proof (cases "js_less dx (Fin Number_0_6)")
      case False
      then show ?thesis
        using none rej dx dx' by (auto simp: scan_def forEach_append)
    next
      case True
      then have inf: "js_less dx PosInfinity" by (rule js_less_PosInfinity)
      have "first_best ar conv q (db @ [x]) (length db)"
        unfolding first_best_def
      proof (intro conjI allI impI)
        show "length db < length (db @ [x])" by simp
        show "js_less (?d ((db @ [x]) ! length db)) (Fin Number_0_6)" using True dx' by simp
      next
        fix k assume "k < length (db @ [x])"
        then consider "k < length db" | "k = length db" by force
        then show "\<not> js_less (?d ((db @ [x]) ! k)) (?d ((db @ [x]) ! length db))"
        proof cases
          case 1
          then have "\<not> js_less (?d (db ! k)) (Fin Number_0_6)" using rej by simp
          then show ?thesis using 1 True dx' js_less_trans by (auto simp: nth_append)
        next
          case 2
          then show ?thesis by simp
        qed
      next
        fix k assume k: "k < length db"
        then have "\<not> js_less (?d (db ! k)) (Fin Number_0_6)" using rej by simp
        then show "?d ((db @ [x]) ! k) \<noteq> ?d ((db @ [x]) ! length db)"
          using k True dx' by (auto simp: nth_append)
      qed
      moreover have "scan ar conv (db @ [x]) q =
          Inr \<lparr>bestMatch.name = person.name ((db @ [x]) ! length db),
               distance = ?d ((db @ [x]) ! length db)\<rparr>"
        using none dx dx' True inf by (simp add: scan_def forEach_append)
      ultimately show ?thesis by blast
    qed
  next
    fix i
    assume fb: "first_best ar conv q db i"
      and sc: "scan ar conv db q = Inr \<lparr>bestMatch.name = person.name (db ! i), distance = ?d (db ! i)\<rparr>"
    from fb have i: "i < length db" and acc: "js_less (?d (db ! i)) (Fin Number_0_6)"
      and mn: "\<forall>k<length db. \<not> js_less (?d (db ! k)) (?d (db ! i))"
      and fst: "\<forall>k<i. ?d (db ! k) \<noteq> ?d (db ! i)"
      by (simp_all add: first_best_def)
    show ?thesis
    proof (cases "js_less dx (Fin Number_0_6) \<and> js_less dx (?d (db ! i))")
      case True
      have "first_best ar conv q (db @ [x]) (length db)"
        unfolding first_best_def
      proof (intro conjI allI impI)
        show "length db < length (db @ [x])" by simp
        show "js_less (?d ((db @ [x]) ! length db)) (Fin Number_0_6)" using True dx' by simp
      next
        fix k assume "k < length (db @ [x])"
        then consider "k < length db" | "k = length db" by force
        then show "\<not> js_less (?d ((db @ [x]) ! k)) (?d ((db @ [x]) ! length db))"
        proof cases
          case 1
          then have "\<not> js_less (?d (db ! k)) (?d (db ! i))" using mn by simp
          then show ?thesis using 1 True dx' js_less_trans by (auto simp: nth_append)
        next
          case 2
          then show ?thesis by simp
        qed
      next
        fix k assume k: "k < length db"
        then have "\<not> js_less (?d (db ! k)) (?d (db ! i))" using mn by simp
        then show "?d ((db @ [x]) ! k) \<noteq> ?d ((db @ [x]) ! length db)"
          using k True dx' by (auto simp: nth_append)
      qed
      moreover have "scan ar conv (db @ [x]) q =
          Inr \<lparr>bestMatch.name = person.name ((db @ [x]) ! length db),
               distance = ?d ((db @ [x]) ! length db)\<rparr>"
        using sc dx dx' True by (simp add: scan_def forEach_append)
      ultimately show ?thesis by blast
    next
      case False
      then have nl: "\<not> js_less dx (?d (db ! i))"
        using acc js_less_trans by blast
      have "first_best ar conv q (db @ [x]) i"
        unfolding first_best_def
      proof (intro conjI allI impI)
        show "i < length (db @ [x])" using i by simp
        show "js_less (?d ((db @ [x]) ! i)) (Fin Number_0_6)" using acc i by (simp add: nth_append)
      next
        fix k assume "k < length (db @ [x])"
        then consider "k < length db" | "k = length db" by force
        then show "\<not> js_less (?d ((db @ [x]) ! k)) (?d ((db @ [x]) ! i))"
        proof cases
          case 1
          then show ?thesis using mn i by (simp add: nth_append)
        next
          case 2
          then show ?thesis using nl dx' i by (simp add: nth_append)
        qed
      next
        fix k assume k: "k < i"
        then show "?d ((db @ [x]) ! k) \<noteq> ?d ((db @ [x]) ! i)"
          using fst i by (simp add: nth_append)
      qed
      moreover have "scan ar conv (db @ [x]) q =
          Inr \<lparr>bestMatch.name = person.name ((db @ [x]) ! i), distance = ?d ((db @ [x]) ! i)\<rparr>"
        using sc dx False i by (auto simp: scan_def forEach_append nth_append)
      ultimately show ?thesis by blast
    qed
  qed
qed


lemma recognize_face_scan:
  "scan ar conv db q = Inr \<lparr>bestMatch.name = n, distance = d\<rparr> \<Longrightarrow>
   recognize_face ar conv db (JArr q) =
     (if truthy n then Recognized n (confidence ar d) else NoMatch, db)"
  by (simp add: recognize_face_def)

subsection \<open>The confidence\<close>

lemma confidence_unit:
  assumes "number_arith ar" and "0 \<le> d" and "d \<le> Number_0_6"
  shows "\<exists>u c. rnd ar (d / Number_0_6) = Fin u \<and> 0 \<le> u \<and> u \<le> 1 \<and>
           rnd ar (1 - u) = Fin c \<and> 0 \<le> c \<and> c \<le> 1 \<and> confidence ar (Fin d) = Fin c"
proof -
  have q: "0 \<le> d / Number_0_6" "d / Number_0_6 \<le> 1"
    using assms(2,3) Number_0_6_pos by simp_all
  obtain u where u: "rnd ar (d / Number_0_6) = Fin u" "0 \<le> u" "u \<le> 1"
    using rnd_unit [OF assms(1) q] by blast
  obtain c where c: "rnd ar (1 - u) = Fin c" "0 \<le> c" "c \<le> 1"
    using rnd_unit [OF assms(1), of "1 - u"] u(2,3) by auto
  have "\<bar>d / Number_0_6\<bar> \<le> 1" using q by linarith
  then have "js_round ar (d / Number_0_6) = Fin u"
    using u(1) js_round_small by metis
  then have "js_div ar (Fin d) (Fin Number_0_6) = Fin u"
    using Number_0_6_pos by simp
  moreover have "\<bar>1 - u\<bar> \<le> 1" using u(2,3) by linarith
  then have "js_round ar (1 - u) = Fin c"
    using c(1) js_round_small by metis
  then have "js_sub ar (Fin 1) (Fin u) = Fin c"
    by simp
  ultimately have "confidence ar (Fin d) = Fin c"
    by (simp add: confidence_def)
  then show ?thesis using u c by blast
qed

lemma confidence_clamped:
  assumes "number_arith ar" and "0 \<le> d" and "d \<le> Number_0_6"
  shows "confidence ar (Fin d) = spec_confidence ar (Fin d) (Fin Number_0_6)"
proof -
  obtain c where "confidence ar (Fin d) = Fin c" "0 \<le> c" "c \<le> 1"
    using confidence_unit [OF assms] by blast
  then show ?thesis
    by (simp add: spec_confidence_def confidence_def clamp01_def)
qed

lemma confidence_antimono:
  assumes "number_arith ar" and "0 \<le> a" and "a \<le> b" and "b \<le> Number_0_6"
  shows "\<not> js_less (confidence ar (Fin a)) (confidence ar (Fin b))"
proof -
  obtain ua ca where a: "rnd ar (a / Number_0_6) = Fin ua" "rnd ar (1 - ua) = Fin ca"
      "confidence ar (Fin a) = Fin ca"
    using confidence_unit [OF assms(1,2)] assms(3,4) by force
  obtain ub cb where b: "rnd ar (b / Number_0_6) = Fin ub" "rnd ar (1 - ub) = Fin cb"
      "confidence ar (Fin b) = Fin cb"
    using confidence_unit [OF assms(1), of b] assms(2,3,4) by force
  have mono: "\<And>x y. x \<le> y \<Longrightarrow> \<not> js_less (rnd ar y) (rnd ar x)"
    using assms(1) by (simp add: number_arith_def)
  have "a / Number_0_6 \<le> b / Number_0_6"
    using assms(3) Number_0_6_pos by (simp add: divide_right_mono)
  then have "ua \<le> ub" using mono [of "a / Number_0_6" "b / Number_0_6"] a(1) b(1) by simp
  then have "1 - ub \<le> 1 - ua" by simp
  then have "\<not> js_less (Fin ca) (Fin cb)"
    using mono [of "1 - ub" "1 - ua"] a(2) b(2) by simp
  then show ?thesis using a(3) b(3) by simp
qed

lemma confidence_ends:
  assumes "number_arith ar"
  shows "confidence ar (Fin 0) = Fin 1" and "confidence ar (Fin Number_0_6) = Fin 0"
proof -
  have r0: "js_round ar 0 = Fin 0" and r1: "js_round ar 1 = Fin 1"
    using assms js_round_small [of 0 ar] js_round_small [of 1 ar]
    by (simp_all add: number_arith_def)
  show "confidence ar (Fin 0) = Fin 1"
    using Number_0_6_pos by (simp add: confidence_def r0 r1)
  show "confidence ar (Fin Number_0_6) = Fin 0"
    using Number_0_6_pos by (simp add: confidence_def r0 r1)
qed

subsection \<open>Reachable databases\<close>

lemma strict_eq_sym: "strict_eq a b = strict_eq b a"
  by (cases a; cases b) auto

lemma register_face_inv: "faceDB_inv db \<Longrightarrow> faceDB_inv (snd (register_face db n d))"
proof -
  assume inv: "faceDB_inv db"
  show ?thesis
  proof (cases "\<not> truthy n \<or> \<not> truthy d \<or> list_ex (\<lambda>entry. strict_eq (person.name entry) n) db")
    case True
    then show ?thesis using inv by (auto simp: register_face_def)
  next
    case False
    then have tn: "truthy n" and td: "truthy d"
      and fresh: "\<forall>k<length db. \<not> strict_eq (person.name (db ! k)) n"
      by (auto simp: list_ex_iff)
    have new: "snd (register_face db n d) = db @ [\<lparr>person.name = n, descriptor = d\<rparr>]"
      using False by (simp add: register_face_def Let_def)
    have "\<not> strict_eq (person.name ((db @ [\<lparr>person.name = n, descriptor = d\<rparr>]) ! i))
                       (person.name ((db @ [\<lparr>person.name = n, descriptor = d\<rparr>]) ! j))"
      if ij: "i < Suc (length db)" "j < Suc (length db)" "i \<noteq> j" for i j
    proof -
      consider "i < length db" "j < length db" | "i < length db" "j = length db"
        | "i = length db" "j < length db"
        using ij by (metis less_antisym)
      then show ?thesis
      proof cases
        case 1
        then show ?thesis using inv ij by (simp add: faceDB_inv_def nth_append)
      next
        case 2
        then show ?thesis using fresh by (simp add: nth_append)
      next
        case 3
        then show ?thesis using fresh strict_eq_sym by (simp add: nth_append)
      qed
    qed
    then show ?thesis
      using inv tn td unfolding new faceDB_inv_def by auto
  qed
qed

lemma register_all_inv: "faceDB_inv db \<Longrightarrow> faceDB_inv (register_all db calls)"
  by (induction calls arbitrary: db) (auto simp: register_face_inv)

lemma faceDB_inv_Nil: "faceDB_inv []"
  by (simp add: faceDB_inv_def)

lemma reachable_inv: "faceDB_inv (register_all [] calls)"
  by (simp add: register_all_inv faceDB_inv_Nil)

subsection \<open>When recognize is not answered 500\<close>

lemma forEach_total:
  "\<forall>p\<in>set db. \<exists>d. euclideanDistance ar conv q (person.descriptor p) = Inr d \<Longrightarrow>
   \<exists>b'. forEach ar conv q db b = Inr b'"
  by (induction db arbitrary: b) auto

lemma recognize_not_500:
  "\<forall>p\<in>set db. \<exists>d. euclideanDistance ar conv q (person.descriptor p) = Inr d \<Longrightarrow>
   fst (recognize_face ar conv db (JArr q)) \<noteq> Recognize500"
  using forEach_total [of db ar conv q "\<lparr>bestMatch.name = JNull, distance = PosInfinity\<rparr>"]
  by (auto simp: recognize_face_def scan_def split: if_splits)

lemma not_500_scan:
  assumes "fst (recognize_face ar conv db (JArr q)) \<noteq> Recognize500"
  shows "\<exists>best. scan ar conv db q = Inr best"
  using assms by (cases "scan ar conv db q") (auto simp: recognize_face_def)

lemma recognized_scan:
  assumes "recognize_face ar conv db req = (Recognized n c, db')"
  shows "\<exists>best. scan ar conv db (elements req) = Inr best \<and> truthy (bestMatch.name best) \<and>
           n = bestMatch.name best \<and> c = confidence ar (bestMatch.distance best)"
  using assms by (auto simp: recognize_face_def split: if_splits sum.splits)

text \<open>The distances of a store of arrays of numbers from an array of numbers.\<close>

lemma nums_store_total:
  assumes "\<forall>p\<in>set db. \<exists>ys. person.descriptor p = JArr (map JNum ys)"
  shows "\<forall>p\<in>set db. \<exists>d. euclideanDistance ar conv (map JNum xs) (person.descriptor p) = Inr d"
  using assms euclideanDistance_nums_total by metis

subsection \<open>The example arithmetic\<close>

lemma number_arith_exact: "number_arith exact_arith"
  by (simp add: number_arith_def exact_arith_def)

lemma js_round_exact: "\<bar>x\<bar> < 2 ^ 1024 \<Longrightarrow> js_round exact_arith x = Fin x"
  by (auto simp: js_round_def exact_arith_def)

lemma sum_loop_zero_tail:
  assumes "\<forall>i\<in>set is. i < length q \<and> i < length r \<and> q ! i = JNum (Fin 0) \<and> r ! i = JNum (Fin 0)"
    and "s = PosInfinity \<or> s = NaN"
  shows "sum_loop exact_arith conv q (JArr r) is s = Inr s"
  using assms
proof (induction "is")
  case Nil
  then show ?case by simp
next
  case (Cons i "is")
  have "js_add exact_arith s (Math_pow exact_arith (js_sub exact_arith (Fin 0) (Fin 0)) 2) = s"
    using Cons.prems(2) by (auto simp: js_round_exact)
  then show ?case using Cons by simp
qed

text \<open>One dimension, query 0, in the example arithmetic.\<close>

lemma euclideanDistance_exact_1:
  assumes "0 < x" and "x < 1"
  shows "euclideanDistance exact_arith conv [JNum (Fin 0)] (emb [x]) = Inr (Fin x)"
proof -
  have one: "(1::real) < 2 ^ 1024" by simp
  have "\<bar>- x\<bar> < 2 ^ 1024" using assms one by linarith
  moreover have "x\<^sup>2 < 1" using assms by (simp add: abs_square_less_1)
  then have "\<bar>x\<^sup>2\<bar> < 2 ^ 1024" using one by simp
  ultimately have "js_round exact_arith (- x) = Fin (- x)"
    "js_round exact_arith (x\<^sup>2) = Fin (x\<^sup>2)"
    by (simp_all add: js_round_exact)
  then show ?thesis
    using assms by (simp add: euclideanDistance_def emb_def exact_arith_def)
qed

section \<open>The claims\<close>

text \<open>
  In the statements below, status 400 is the specification's \<open>InvalidInput\<close>, status 409
  its \<open>DuplicateIdentity\<close>, \<open>Recognized\<close> its \<open>matched: true\<close> and \<open>NoMatch\<close> its
  \<open>matched: false\<close>. The threshold is the Number \<^verbatim>\<open>0.6\<close> of the handler. Every
  statement holds for every arithmetic \<open>ar\<close> and every conversion \<open>conv\<close>, under the
  hypotheses it names.
\<close>

subsection \<open>C1: what the input guards check\<close>

text \<open>
  C1, as amended. Register answers 400 exactly when the name or the descriptor is falsy
  (absent, \<open>null\<close>, \<open>false\<close>, \<open>0\<close> or the empty string), recognize exactly when the
  descriptor is not an array, and a call answered 400 leaves the database as it was. The
  length of the embedding is not looked at: an embedding of any length passes both guards.
\<close>

theorem invalid_input_guard:
  "(fst (register_face db n d) = Register400 \<longleftrightarrow> \<not> truthy n \<or> \<not> truthy d)
   \<and> (fst (register_face db n d) = Register400 \<longrightarrow> snd (register_face db n d) = db)
   \<and> (fst (recognize_face ar conv db d) = Recognize400 \<longleftrightarrow> \<not> Array_isArray d)
   \<and> (fst (recognize_face ar conv db d) = Recognize400 \<longrightarrow>
        snd (recognize_face ar conv db d) = db)
   \<and> fst (register_face db (JStr (c # l)) (emb r)) \<noteq> Register400
   \<and> fst (recognize_face ar conv db (emb r)) \<noteq> Recognize400"
proof -
  have arr: "truthy v" if "Array_isArray v" for v
    using that by (cases v) auto
  have "fst (register_face db (JStr (c # l)) (emb r)) \<noteq> Register400"
    by (simp add: register_face_def emb_def Let_def)
  moreover have "fst (recognize_face ar conv db (emb r)) \<noteq> Recognize400"
    by (simp add: recognize_face_def emb_def split: sum.splits)
  moreover have "fst (register_face db n d) = Register400 \<longleftrightarrow> \<not> truthy n \<or> \<not> truthy d"
    by (simp add: register_face_def Let_def)
  moreover have "fst (register_face db n d) = Register400 \<longrightarrow> snd (register_face db n d) = db"
    by (simp add: register_face_def Let_def)
  moreover have "fst (recognize_face ar conv db d) = Recognize400 \<longleftrightarrow> \<not> Array_isArray d"
    using arr [of d] by (auto simp: recognize_face_def split: sum.splits)
  moreover have "fst (recognize_face ar conv db d) = Recognize400 \<longrightarrow>
      snd (recognize_face ar conv db d) = db"
    by (simp add: recognize_face_def split: sum.splits)
  ultimately show ?thesis by blast
qed

theorem invalid_input_guard_witness:
  "fst (register_face [] (JStr []) (emb [1, 2, 3])) = Register400
   \<and> snd (register_face [] (JStr []) (emb [1, 2, 3])) = []
   \<and> fst (recognize_face exact_arith nan_conv [] JNull) = Recognize400
   \<and> snd (recognize_face exact_arith nan_conv [] JNull) = []
   \<and> fst (register_face [] (JStr ''Ann'') (emb [1, 2, 3])) \<noteq> Register400
   \<and> fst (recognize_face exact_arith nan_conv [] (emb [1, 2, 3])) \<noteq> Recognize400"
  using invalid_input_guard [where db = "[]" and n = "JStr []" and d = "emb [1, 2, 3]"
      and ar = exact_arith and conv = nan_conv and c = "CHR ''A''" and l = "''nn''"
      and r = "[1, 2, 3]"]
    invalid_input_guard [where db = "[]" and n = "JStr []" and d = "JNull"
      and ar = exact_arith and conv = nan_conv and c = "CHR ''A''" and l = "''nn''"
      and r = "[1, 2, 3]"]
  by (simp add: emb_def)

text \<open>
  C1 as stated fails: an embedding of length 3 is registered, and the database grows;
  recognize then accepts the same embedding and matches it.
\<close>

theorem dimension_guard_counterexample:
  "length [1, 2, 3 :: real] \<noteq> D
   \<and> register_face [] (JStr ''Ann'') (emb [1, 2, 3]) = (Register200 (JStr ''Ann'') 1, [\<lparr>person.name = JStr ''Ann'', descriptor = emb [1, 2, 3]\<rparr>])
   \<and> recognize_face exact_arith nan_conv [\<lparr>person.name = JStr ''Ann'', descriptor = emb [1, 2, 3]\<rparr>] (emb [1, 2, 3]) =
       (Recognized (JStr ''Ann'') (Fin 1), [\<lparr>person.name = JStr ''Ann'', descriptor = emb [1, 2, 3]\<rparr>])"
proof -
  have d: "euclideanDistance exact_arith nan_conv (map (\<lambda>x. JNum (Fin x)) [1, 2, 3])
      (emb [1, 2, 3]) = Inr (Fin 0)"
    by (rule euclideanDistance_self [OF number_arith_exact])
  have "scan exact_arith nan_conv [\<lparr>person.name = JStr ''Ann'', descriptor = emb [1, 2, 3]\<rparr>] (map (\<lambda>x. JNum (Fin x)) [1, 2, 3]) =
      Inr \<lparr>bestMatch.name = JStr ''Ann'', distance = Fin 0\<rparr>"
    using d Number_0_6_pos by (simp add: scan_def)
  then have "recognize_face exact_arith nan_conv [\<lparr>person.name = JStr ''Ann'', descriptor = emb [1, 2, 3]\<rparr>] (emb [1, 2, 3]) =
       (Recognized (JStr ''Ann'') (Fin 1), [\<lparr>person.name = JStr ''Ann'', descriptor = emb [1, 2, 3]\<rparr>])"
    using confidence_ends(1) [OF number_arith_exact]
    by (simp add: recognize_face_def emb_def)
  then show ?thesis
    by (simp add: D_def register_face_def emb_def)
qed

subsection \<open>C2: registration and the uniqueness of labels\<close>

text \<open>
  C2. For a register call that passes validation (a non-empty label \<open>l\<close>, a truthy
  descriptor): when no record carries the label, exactly the record (label, descriptor)
  is appended and the new length is returned; when a record carries it, the answer is
  409 and the database is unchanged. After any sequence of register calls, whatever
  their arguments, no two records carry the same string label.
\<close>

theorem register_unique:
  "(l \<noteq> [] \<and> truthy d \<and> JStr l \<notin> person.name ` set db \<longrightarrow>
      register_face db (JStr l) d =
        (Register200 (JStr l) (Suc (length db)), db @ [\<lparr>person.name = JStr l, descriptor = d\<rparr>]))
   \<and> (l \<noteq> [] \<and> truthy d \<and> JStr l \<in> person.name ` set db \<longrightarrow>
      register_face db (JStr l) d = (Register409, db))
   \<and> (\<forall>i<length (register_all [] calls). \<forall>j<length (register_all [] calls).
        person.name (register_all [] calls ! i) = JStr l \<and>
        person.name (register_all [] calls ! j) = JStr l \<longrightarrow> i = j)"
proof (intro conjI impI allI)
  assume a: "l \<noteq> [] \<and> truthy d \<and> JStr l \<notin> person.name ` set db"
  then have "\<not> list_ex (\<lambda>entry. strict_eq (person.name entry) (JStr l)) db"
  proof -
    have "\<not> strict_eq (person.name p) (JStr l)" if "p \<in> set db" for p
    proof -
      have "person.name p \<noteq> JStr l" using that a by (metis imageI)
      then show ?thesis by (cases "person.name p") auto
    qed
    then show ?thesis by (simp add: list_ex_iff)
  qed
  then show "register_face db (JStr l) d =
        (Register200 (JStr l) (Suc (length db)), db @ [\<lparr>person.name = JStr l, descriptor = d\<rparr>])"
    using a by (simp add: register_face_def)
next
  assume a: "l \<noteq> [] \<and> truthy d \<and> JStr l \<in> person.name ` set db"
  then obtain p where p: "p \<in> set db" "person.name p = JStr l" by auto
  then have "strict_eq (person.name p) (JStr l)" by simp
  then have "list_ex (\<lambda>entry. strict_eq (person.name entry) (JStr l)) db"
    unfolding list_ex_iff using p(1) by blast
  then show "register_face db (JStr l) d = (Register409, db)"
    using a by (simp add: register_face_def)
next
  fix i j
  assume "i < length (register_all [] calls)" "j < length (register_all [] calls)"
    "person.name (register_all [] calls ! i) = JStr l \<and>
     person.name (register_all [] calls ! j) = JStr l"
  then show "i = j"
    using reachable_inv [of calls] unfolding faceDB_inv_def
    by (metis strict_eq.simps(5))
qed

theorem register_unique_witness:
  "register_face [] (JStr ''Ann'') (emb [1, 0]) = (Register200 (JStr ''Ann'') 1, [\<lparr>person.name = JStr ''Ann'', descriptor = emb [1, 0]\<rparr>])
   \<and> register_face [\<lparr>person.name = JStr ''Ann'', descriptor = emb [1, 0]\<rparr>] (JStr ''Ann'') (emb [0, 1]) = (Register409, [\<lparr>person.name = JStr ''Ann'', descriptor = emb [1, 0]\<rparr>])
   \<and> register_all []
        [(JStr ''Ann'', emb [1, 0]), (JStr ''Ann'', emb [0, 1]), (JStr ''Bob'', emb [0, 1])] =
        [\<lparr>person.name = JStr ''Ann'', descriptor = emb [1, 0]\<rparr>, \<lparr>person.name = JStr ''Bob'', descriptor = emb [0, 1]\<rparr>]
   \<and> person.name ([\<lparr>person.name = JStr ''Ann'', descriptor = emb [1, 0]\<rparr>, \<lparr>person.name = JStr ''Bob'', descriptor = emb [0, 1]\<rparr>] ! 0) = JStr ''Ann''
   \<and> person.name ([\<lparr>person.name = JStr ''Ann'', descriptor = emb [1, 0]\<rparr>, \<lparr>person.name = JStr ''Bob'', descriptor = emb [0, 1]\<rparr>] ! 1) \<noteq> JStr ''Ann''"
proof -
  have db: "register_all []
        [(JStr ''Ann'', emb [1, 0]), (JStr ''Ann'', emb [0, 1]), (JStr ''Bob'', emb [0, 1])] =
        [\<lparr>person.name = JStr ''Ann'', descriptor = emb [1, 0]\<rparr>, \<lparr>person.name = JStr ''Bob'', descriptor = emb [0, 1]\<rparr>]"
    by (simp add: register_face_def emb_def)
  have one: "register_face [] (JStr ''Ann'') (emb [1, 0]) = (Register200 (JStr ''Ann'') 1, [\<lparr>person.name = JStr ''Ann'', descriptor = emb [1, 0]\<rparr>])"
    using register_unique [where l = "''Ann''" and d = "emb [1, 0]" and db = "[]" and calls = "[]"]
    by (simp add: emb_def)
  have two: "register_face [\<lparr>person.name = JStr ''Ann'', descriptor = emb [1, 0]\<rparr>] (JStr ''Ann'') (emb [0, 1]) = (Register409, [\<lparr>person.name = JStr ''Ann'', descriptor = emb [1, 0]\<rparr>])"
    using register_unique [where l = "''Ann''" and d = "emb [0, 1]" and db = "[\<lparr>person.name = JStr ''Ann'', descriptor = emb [1, 0]\<rparr>]"
        and calls = "[]"]
    by (simp add: emb_def)
  note uniq = register_unique [where l = "''Ann''" and d = "emb [1, 0]" and db = "[]" and calls =
          "[(JStr ''Ann'', emb [1, 0]), (JStr ''Ann'', emb [0, 1]), (JStr ''Bob'', emb [0, 1])]",
        unfolded db, THEN conjunct2, THEN conjunct2, rule_format, of 0 1]
  have three: "person.name ([\<lparr>person.name = JStr ''Ann'', descriptor = emb [1, 0]\<rparr>, \<lparr>person.name = JStr ''Bob'', descriptor = emb [0, 1]\<rparr>] ! 0) = JStr ''Ann''
      \<and> person.name ([\<lparr>person.name = JStr ''Ann'', descriptor = emb [1, 0]\<rparr>, \<lparr>person.name = JStr ''Bob'', descriptor = emb [0, 1]\<rparr>] ! 1) \<noteq> JStr ''Ann''"
    using uniq by simp
  show ?thesis using db one two three by blast
qed

subsection \<open>C3: the acceptance threshold\<close>



subsection \<open>C4: a registered embedding matches itself\<close>

text \<open>
  C4, as amended. For every record of a database reached by register calls whose
  descriptor is an embedding of finite numbers, recognize called with that embedding
  reports a match with confidence 1, and the distance of the match, the \<open>distance\<close> of
  the final \<open>bestMatch\<close>, is 0, unless the request is answered 500 because the distance to
  a stored descriptor throws. The body of the response carries the name and the
  confidence.
\<close>

theorem self_match:
  assumes "number_arith ar"
    and "p \<in> set (register_all [] calls)" and "person.descriptor p = emb r"
    and "fst (recognize_face ar conv (register_all [] calls) (emb r)) \<noteq> Recognize500"
  shows "\<exists>n. recognize_face ar conv (register_all [] calls) (emb r) =
               (Recognized n (Fin 1), register_all [] calls)
           \<and> scan ar conv (register_all [] calls) (map (\<lambda>x. JNum (Fin x)) r) =
               Inr \<lparr>bestMatch.name = n, distance = Fin 0\<rparr>"
proof -
  let ?db = "register_all [] calls"
  let ?q = "map (\<lambda>x. JNum (Fin x)) r"
  let ?d = "distance_to ar conv ?q"
  have inv: "\<forall>p\<in>set ?db. truthy (person.name p)"
    using reachable_inv [of calls] by (simp add: faceDB_inv_def)
  obtain best where "scan ar conv ?db ?q = Inr best"
    using not_500_scan [of ar conv ?db ?q] assms(4) by (auto simp: emb_def)
  then have all: "\<forall>p\<in>set ?db. \<exists>d. euclideanDistance ar conv ?q (person.descriptor p) = Inr d"
    unfolding scan_def by (rule forEach_Inr_all)
  have dp: "?d p = Fin 0"
    using euclideanDistance_self [OF assms(1), of conv r] assms(3)
    by (simp add: distance_to_def)
  have "\<not> (\<forall>p\<in>set ?db. \<not> js_less (?d p) (Fin Number_0_6))"
    using assms(2) dp Number_0_6_pos by force
  then obtain i where fb: "first_best ar conv ?q ?db i"
    and sc: "scan ar conv ?db ?q =
      Inr \<lparr>bestMatch.name = person.name (?db ! i), distance = ?d (?db ! i)\<rparr>"
    using scan_cases [OF all] by blast
  obtain k where k: "k < length ?db" "?db ! k = p"
    using assms(2) by (auto simp: in_set_conv_nth)
  have i: "i < length ?db" and acc: "js_less (?d (?db ! i)) (Fin Number_0_6)"
    using fb by (simp_all add: first_best_def)
  have ti: "truthy (person.name (?db ! i))"
    using inv i by simp
  obtain di where di: "euclideanDistance ar conv ?q (person.descriptor (?db ! i)) = Inr di"
    using all i by (metis nth_mem)
  then have ddi: "?d (?db ! i) = di" by (simp add: distance_to_def)
  have lo: "\<not> js_less di (Fin 0)"
    using euclideanDistance_range [OF assms(1) di] .
  have hi: "\<not> js_less (Fin 0) di"
    using fb k dp ddi by (auto simp: first_best_def)
  have "di = Fin 0"
    using lo hi acc ddi by (cases di) auto
  then have sc0: "scan ar conv ?db ?q =
      Inr \<lparr>bestMatch.name = person.name (?db ! i), distance = Fin 0\<rparr>"
    using sc ddi by simp
  then have "recognize_face ar conv ?db (emb r) =
      (Recognized (person.name (?db ! i)) (Fin 1), ?db)"
    using recognize_face_scan [OF sc0] ti confidence_ends(1) [OF assms(1)]
    by (simp add: emb_def)
  then show ?thesis using sc0 by blast
qed

theorem self_match_witness:
  "\<exists>n. recognize_face exact_arith nan_conv
          (register_all [] [(JStr ''Ann'', emb [1, 0]), (JStr ''Bob'', emb [0, 1])]) (emb [0, 1]) =
          (Recognized n (Fin 1),
           register_all [] [(JStr ''Ann'', emb [1, 0]), (JStr ''Bob'', emb [0, 1])])
      \<and> scan exact_arith nan_conv
          (register_all [] [(JStr ''Ann'', emb [1, 0]), (JStr ''Bob'', emb [0, 1])])
          (map (\<lambda>x. JNum (Fin x)) [0, 1]) = Inr \<lparr>bestMatch.name = n, distance = Fin 0\<rparr>"
proof -
  let ?calls = "[(JStr ''Ann'', emb [1, 0]), (JStr ''Bob'', emb [0, 1])]"
  have db: "register_all [] ?calls =
      [\<lparr>person.name = JStr ''Ann'', descriptor = emb [1, 0]\<rparr>,
       \<lparr>person.name = JStr ''Bob'', descriptor = emb [0, 1]\<rparr>]"
    by (simp add: register_face_def emb_def)
  have mem: "\<lparr>person.name = JStr ''Bob'', descriptor = emb [0, 1]\<rparr> \<in> set (register_all [] ?calls)"
    unfolding db by simp
  have "\<forall>p\<in>set (register_all [] ?calls). \<exists>ys. person.descriptor p = JArr (map JNum ys)"
    unfolding db by (auto simp: emb_def intro: exI [of _ "[Fin 1, Fin 0]"] exI [of _ "[Fin 0, Fin 1]"])
  then have "fst (recognize_face exact_arith nan_conv (register_all [] ?calls)
      (JArr (map JNum [Fin 0, Fin 1]))) \<noteq> Recognize500"
    using recognize_not_500 [OF nums_store_total] by blast
  then have n5: "fst (recognize_face exact_arith nan_conv (register_all [] ?calls) (emb [0, 1]))
      \<noteq> Recognize500"
    by (simp add: emb_def)
  show ?thesis
    using self_match [OF number_arith_exact mem _ n5] by simp
qed

text \<open>
  C4 as stated fails: the descriptor \<^verbatim>\<open>[1e999]\<close> is parsed as \<^verbatim>\<open>[Infinity]\<close>, passes
  the guard of register and is stored; recognize called with it computes the distance
  \<open>NaN\<close> and answers no match.
\<close>

theorem self_match_counterexample:
  "register_all [] [(JStr ''Ann'', JArr [JNum PosInfinity])] =
     [\<lparr>person.name = JStr ''Ann'', descriptor = JArr [JNum PosInfinity]\<rparr>]
   \<and> recognize_face exact_arith nan_conv
       [\<lparr>person.name = JStr ''Ann'', descriptor = JArr [JNum PosInfinity]\<rparr>]
       (JArr [JNum PosInfinity]) =
     (NoMatch, [\<lparr>person.name = JStr ''Ann'', descriptor = JArr [JNum PosInfinity]\<rparr>])"
  by (simp add: register_face_def recognize_face_def scan_def euclideanDistance_def upt_rec)

text \<open>
  The exception named in the statement above: a stored descriptor holding the parsed
  \<^verbatim>\<open>{"toString": null}\<close> is registered, and every later recognize with a non-empty
  array is answered 500, also for the embedding of a record registered after it.
\<close>

lemma recognize_500_example:
  "register_all [] [(JStr ''Zed'', JArr [JObj [(''toString'', JNull)]]), (JStr ''Ann'', emb [1])] =
     [\<lparr>person.name = JStr ''Zed'', descriptor = JArr [JObj [(''toString'', JNull)]]\<rparr>,
      \<lparr>person.name = JStr ''Ann'', descriptor = emb [1]\<rparr>]
   \<and> recognize_face exact_arith throwing_conv
       [\<lparr>person.name = JStr ''Zed'', descriptor = JArr [JObj [(''toString'', JNull)]]\<rparr>,
        \<lparr>person.name = JStr ''Ann'', descriptor = emb [1]\<rparr>] (emb [1]) =
     (Recognize500,
      [\<lparr>person.name = JStr ''Zed'', descriptor = JArr [JObj [(''toString'', JNull)]]\<rparr>,
       \<lparr>person.name = JStr ''Ann'', descriptor = emb [1]\<rparr>])"
  by (simp add: register_face_def recognize_face_def scan_def euclideanDistance_def upt_rec
      emb_def throwing_conv_def)

subsection \<open>C5: ties go to the record registered first\<close>



subsection \<open>C6: the empty label\<close>

text \<open>
  C6, as amended. A register call whose label is the empty string, or is absent, is
  answered 400 and adds no record. Register does not trim the label: a name that is empty
  after trimming is stopped by the capture form, which then posts no request.
\<close>

theorem register_empty_label:
  "register_face db (JStr []) d = (Register400, db)
   \<and> register_face db JUndefined d = (Register400, db)
   \<and> (trim input_name = [] \<longrightarrow> captureAndSend input_name video detection = EnterName)"
  by (simp add: register_face_def captureAndSend_def)

theorem register_empty_label_witness:
  "register_face [] (JStr []) (emb [1, 2, 3]) = (Register400, [])
   \<and> register_face [] JUndefined (emb [1, 2, 3]) = (Register400, [])
   \<and> trim ''  '' = []
   \<and> captureAndSend ''  '' True (Some [1, 2, 3]) = EnterName"
  using register_empty_label [where db = "[]" and d = "emb [1, 2, 3]" and input_name = "''  ''"
      and video = True and detection = "Some [1, 2, 3]"]
  by (simp add: trim_def)

text \<open>
  C6 as stated fails: a label of two spaces is empty after trimming, and register accepts
  it.
\<close>

theorem blank_label_counterexample:
  "trim ''  '' = []
   \<and> register_face [] (JStr ''  '') (emb [1, 2, 3]) =
       (Register200 (JStr ''  '') 1, [\<lparr>person.name = JStr ''  '', descriptor = emb [1, 2, 3]\<rparr>])"
  by (simp add: trim_def register_face_def emb_def)

subsection \<open>C7: the distance and the Euclidean distance\<close>

text \<open>
  C7, as amended. For two embeddings of finite numbers of the same dimension \<open>n\<close>, in
  particular \<open>D\<close>, \<^verbatim>\<open>euclideanDistance\<close> evaluates \<open>sqrt (\<Sum>i<n. (q\<^sub>i - r\<^sub>i)\<^sup>2)\<close> over all
  \<open>n\<close> dimensions in the arithmetic of Numbers, and the result is the Euclidean distance
  whenever each difference, each square, each partial sum and the root is computed
  exactly.
\<close>

theorem distance_is_euclidean:
  assumes "length q = n" and "length r = n"
    and "\<forall>i<n. js_sub ar (Fin (q ! i)) (Fin (r ! i)) = Fin (q ! i - r ! i)"
    and "\<forall>i<n. Math_pow ar (Fin (q ! i - r ! i)) 2 = Fin ((q ! i - r ! i)\<^sup>2)"
    and "\<forall>i<n. js_add ar (Fin (\<Sum>j<i. (q ! j - r ! j)\<^sup>2)) (Fin ((q ! i - r ! i)\<^sup>2)) =
           Fin (\<Sum>j<Suc i. (q ! j - r ! j)\<^sup>2)"
    and "Math_sqrt ar (Fin (\<Sum>j<n. (q ! j - r ! j)\<^sup>2)) = Fin (sqrt (\<Sum>j<n. (q ! j - r ! j)\<^sup>2))"
  shows "euclideanDistance ar conv (map (\<lambda>x. JNum (Fin x)) q) (emb r) =
           Inr (Fin (spec_distance n q r))"
proof -
  have "sum_loop ar conv (map (\<lambda>x. JNum (Fin x)) q) (JArr (map (\<lambda>x. JNum (Fin x)) r))
           [0..<n] (Fin 0) = Inr (Fin (\<Sum>i<n. (q ! i - r ! i)\<^sup>2))"
    using assms(1,2) by (intro sum_loop_exact assms(3,4,5)) simp_all
  then show ?thesis
    using assms(1,6) by (simp add: euclideanDistance_def emb_def spec_distance_def)
qed

theorem distance_is_euclidean_witness:
  "euclideanDistance exact_arith nan_conv (map (\<lambda>x. JNum (Fin x)) [3, 0]) (emb [0, 4]) =
     Inr (Fin (spec_distance 2 [3, 0] [0, 4]))
   \<and> spec_distance 2 [3, 0] [0, 4] = 5"
proof -
  have r: "js_round exact_arith 3 = Fin 3" "js_round exact_arith (- 4) = Fin (- 4)"
    "js_round exact_arith 9 = Fin 9" "js_round exact_arith 25 = Fin 25"
    by (simp_all add: js_round_exact)
  have five: "sqrt 25 = (5::real)"
    by (rule real_sqrt_unique) simp_all
  have h3: "\<forall>i<2. js_sub exact_arith (Fin ([3, 0] ! i)) (Fin ([0, 4] ! i)) =
      Fin ([3, 0] ! i - [0, 4] ! i)"
    using r by (simp add: less_Suc_eq numeral_2_eq_2)
  have h4: "\<forall>i<2. Math_pow exact_arith (Fin ([3, 0] ! i - [0, 4] ! i)) 2 =
      Fin (([3, 0] ! i - [0, 4] ! i)\<^sup>2)"
    by (simp add: less_Suc_eq numeral_2_eq_2 exact_arith_def)
  have h5: "\<forall>i<2. js_add exact_arith (Fin (\<Sum>j<i. ([3, 0] ! j - [0, 4] ! j)\<^sup>2))
      (Fin (([3, 0] ! i - [0, 4] ! i)\<^sup>2)) = Fin (\<Sum>j<Suc i. ([3, 0] ! j - [0, 4] ! j)\<^sup>2)"
    using r by (simp add: less_Suc_eq numeral_2_eq_2 lessThan_Suc)
  have h6: "Math_sqrt exact_arith (Fin (\<Sum>j<2. ([3, 0] ! j - [0, 4] ! j)\<^sup>2)) =
      Fin (sqrt (\<Sum>j<2. ([3, 0] ! j - [0, 4] ! j)\<^sup>2))"
    by (simp add: numeral_2_eq_2 lessThan_Suc exact_arith_def)
  have "spec_distance 2 [3, 0] [0, 4] = 5"
    using five by (simp add: spec_distance_def numeral_2_eq_2 lessThan_Suc)
  then show ?thesis
    using distance_is_euclidean [where q = "[3, 0]" and r = "[0, 4]" and n = 2
        and ar = exact_arith and conv = nan_conv, OF _ _ h3 h4 h5 h6]
    by simp
qed

text \<open>
  C7 as stated fails, on two pairs of embeddings of length \<open>D\<close>. When both hold
  \<^verbatim>\<open>1e999\<close>, parsed as \<^verbatim>\<open>Infinity\<close>, in the first dimension, the distance is \<open>NaN\<close>.
  When one holds the largest finite Number there and the other its negative, all other
  coordinates being 0, their difference overflows and the distance is \<^verbatim>\<open>Infinity\<close>,
  while the Euclidean distance is twice that Number.
\<close>

theorem distance_is_euclidean_counterexample:
  "length (JNum PosInfinity # replicate (D - 1) (JNum (Fin 0))) = D
   \<and> euclideanDistance exact_arith nan_conv
       (JNum PosInfinity # replicate (D - 1) (JNum (Fin 0)))
       (JArr (JNum PosInfinity # replicate (D - 1) (JNum (Fin 0)))) = Inr NaN
   \<and> length (Number_MAX_VALUE # replicate (D - 1) 0) = D
   \<and> euclideanDistance exact_arith nan_conv
       (map (\<lambda>x. JNum (Fin x)) (Number_MAX_VALUE # replicate (D - 1) 0))
       (emb (- Number_MAX_VALUE # replicate (D - 1) 0)) = Inr PosInfinity
   \<and> spec_distance D (Number_MAX_VALUE # replicate (D - 1) 0)
       (- Number_MAX_VALUE # replicate (D - 1) 0) = 2 * Number_MAX_VALUE"
proof -
  let ?z = "replicate (D - 1) (JNum (Fin 0))"
  have upt: "[0..<D] = 0 # [1..<D]"
    by (simp add: D_def upt_rec)
  have len: "length (x # ?z) = D" for x
    by (simp add: D_def)
  have tail: "\<forall>i\<in>set [1..<D]. i < length (x # ?z) \<and> i < length (y # ?z) \<and>
      (x # ?z) ! i = JNum (Fin 0) \<and> (y # ?z) ! i = JNum (Fin 0)" for x y
    by (auto simp: D_def nth_Cons')
  have "sum_loop exact_arith nan_conv (JNum PosInfinity # ?z) (JArr (JNum PosInfinity # ?z))
      [0..<D] (Fin 0) =
    sum_loop exact_arith nan_conv (JNum PosInfinity # ?z) (JArr (JNum PosInfinity # ?z))
      [1..<D] NaN"
    by (subst upt) simp
  also have "\<dots> = Inr NaN"
    by (rule sum_loop_zero_tail [OF tail]) simp
  finally have a: "euclideanDistance exact_arith nan_conv (JNum PosInfinity # ?z)
      (JArr (JNum PosInfinity # ?z)) = Inr NaN"
    unfolding euclideanDistance_def len by simp
  have big: "js_round exact_arith (Number_MAX_VALUE - - Number_MAX_VALUE) = PosInfinity"
    by (simp add: js_round_def Number_MAX_VALUE_def)
  have m: "map (\<lambda>x. JNum (Fin x)) (x # replicate (D - 1) 0) = JNum (Fin x) # ?z" for x
    by simp
  have "sum_loop exact_arith nan_conv (JNum (Fin Number_MAX_VALUE) # ?z)
      (JArr (JNum (Fin (- Number_MAX_VALUE)) # ?z)) [0..<D] (Fin 0) =
    sum_loop exact_arith nan_conv (JNum (Fin Number_MAX_VALUE) # ?z)
      (JArr (JNum (Fin (- Number_MAX_VALUE)) # ?z)) [1..<D] PosInfinity"
    using big by (subst upt) simp
  also have "\<dots> = Inr PosInfinity"
    by (rule sum_loop_zero_tail [OF tail]) simp
  finally have b: "euclideanDistance exact_arith nan_conv
      (map (\<lambda>x. JNum (Fin x)) (Number_MAX_VALUE # replicate (D - 1) 0))
      (emb (- Number_MAX_VALUE # replicate (D - 1) 0)) = Inr PosInfinity"
    unfolding emb_def m euclideanDistance_def len by simp
  have pos: "0 \<le> Number_MAX_VALUE"
    by (simp add: Number_MAX_VALUE_def)
  have "(\<Sum>i<D. ((Number_MAX_VALUE # replicate (D - 1) 0) ! i -
        (- Number_MAX_VALUE # replicate (D - 1) 0) ! i)\<^sup>2) =
      (\<Sum>i<D. if i = 0 then (2 * Number_MAX_VALUE)\<^sup>2 else 0)"
    by (intro sum.cong) (auto simp: nth_Cons' D_def)
  also have "\<dots> = (2 * Number_MAX_VALUE)\<^sup>2"
    by (simp add: D_def)
  finally have sumeq: "(\<Sum>i<D. ((Number_MAX_VALUE # replicate (D - 1) 0) ! i -
        (- Number_MAX_VALUE # replicate (D - 1) 0) ! i)\<^sup>2) = (2 * Number_MAX_VALUE)\<^sup>2" .
  have "sqrt ((2 * Number_MAX_VALUE)\<^sup>2) = \<bar>2 * Number_MAX_VALUE\<bar>"
    by (rule real_sqrt_abs)
  also have "\<dots> = 2 * Number_MAX_VALUE"
    using pos by simp
  finally have c: "spec_distance D (Number_MAX_VALUE # replicate (D - 1) 0)
       (- Number_MAX_VALUE # replicate (D - 1) 0) = 2 * Number_MAX_VALUE"
    unfolding spec_distance_def sumeq .
  show ?thesis using a b c by (simp add: D_def)
qed

subsection \<open>C8: the confidence\<close>

text \<open>
  C8. Whenever recognize reports a match, the name is that of a record whose computed
  distance \<open>d\<close> is the least over all records and lies in \<open>[0, 0.6)\<close>, and the confidence
  reported is \<open>1 - d / 0.6\<close> in the arithmetic of Numbers, which there equals its
  clamping to the unit interval. On the accepted distances the confidence never
  increases with the distance; it is 1 at distance 0 and 0 at the threshold.
\<close>

theorem confidence_formula:
  assumes "number_arith ar"
  shows "(recognize_face ar conv db req = (Recognized n c, db') \<longrightarrow>
      (\<exists>i d. i < length db \<and> n = person.name (db ! i)
         \<and> euclideanDistance ar conv (elements req) (person.descriptor (db ! i)) = Inr (Fin d)
         \<and> 0 \<le> d \<and> d < Number_0_6
         \<and> (\<forall>k<length db. \<forall>dk.
              euclideanDistance ar conv (elements req) (person.descriptor (db ! k)) = Inr dk
                \<longrightarrow> \<not> js_less dk (Fin d))
         \<and> c = confidence ar (Fin d)
         \<and> c = spec_confidence ar (Fin d) (Fin Number_0_6)))
   \<and> (0 \<le> a \<and> a \<le> b \<and> b \<le> Number_0_6 \<longrightarrow>
        \<not> js_less (confidence ar (Fin a)) (confidence ar (Fin b)))
   \<and> confidence ar (Fin 0) = Fin 1 \<and> confidence ar (Fin Number_0_6) = Fin 0"
proof (intro conjI impI)
  assume r: "recognize_face ar conv db req = (Recognized n c, db')"
  let ?q = "elements req"
  let ?d = "distance_to ar conv ?q"
  obtain best where sc: "scan ar conv db ?q = Inr best"
    and tn: "truthy (bestMatch.name best)" and n: "n = bestMatch.name best"
    and c: "c = confidence ar (bestMatch.distance best)"
    using recognized_scan [OF r] by blast
  have all: "\<forall>p\<in>set db. \<exists>d. euclideanDistance ar conv ?q (person.descriptor p) = Inr d"
    using sc unfolding scan_def by (rule forEach_Inr_all)
  have "best \<noteq> \<lparr>bestMatch.name = JNull, distance = PosInfinity\<rparr>"
    using tn by auto
  then obtain i where fb: "first_best ar conv ?q db i"
    and bi: "best = \<lparr>bestMatch.name = person.name (db ! i), distance = ?d (db ! i)\<rparr>"
    using scan_cases [OF all] sc by auto
  have i: "i < length db" and acc: "js_less (?d (db ! i)) (Fin Number_0_6)"
    and mn: "\<forall>k<length db. \<not> js_less (?d (db ! k)) (?d (db ! i))"
    using fb by (simp_all add: first_best_def)
  obtain di where di: "euclideanDistance ar conv ?q (person.descriptor (db ! i)) = Inr di"
    using all i by (metis nth_mem)
  then have ddi: "?d (db ! i) = di" by (simp add: distance_to_def)
  have lo: "\<not> js_less di (Fin 0)"
    using euclideanDistance_range [OF assms di] .
  obtain d where d: "di = Fin d" "0 \<le> d" "d < Number_0_6"
    using lo acc ddi by (cases di) auto
  have least: "\<not> js_less dk (Fin d)"
    if k: "k < length db"
      and dk: "euclideanDistance ar conv ?q (person.descriptor (db ! k)) = Inr dk" for k dk
    using mn k ddi d(1) distance_to_Inr [OF dk] by auto
  have "c = confidence ar (Fin d)" using c bi ddi d(1) by simp
  moreover have "confidence ar (Fin d) = spec_confidence ar (Fin d) (Fin Number_0_6)"
    using confidence_clamped [OF assms d(2)] d(3) by simp
  ultimately show "\<exists>i d. i < length db \<and> n = person.name (db ! i)
         \<and> euclideanDistance ar conv (elements req) (person.descriptor (db ! i)) = Inr (Fin d)
         \<and> 0 \<le> d \<and> d < Number_0_6
         \<and> (\<forall>k<length db. \<forall>dk.
              euclideanDistance ar conv (elements req) (person.descriptor (db ! k)) = Inr dk
                \<longrightarrow> \<not> js_less dk (Fin d))
         \<and> c = confidence ar (Fin d)
         \<and> c = spec_confidence ar (Fin d) (Fin Number_0_6)"
    using i n bi di d least by (intro exI [of _ i] exI [of _ d]) auto
next
  assume "0 \<le> a \<and> a \<le> b \<and> b \<le> Number_0_6"
  then show "\<not> js_less (confidence ar (Fin a)) (confidence ar (Fin b))"
    using confidence_antimono [OF assms] by blast
next
  show "confidence ar (Fin 0) = Fin 1" by (rule confidence_ends(1) [OF assms])
  show "confidence ar (Fin Number_0_6) = Fin 0" by (rule confidence_ends(2) [OF assms])
qed

theorem confidence_formula_witness:
  "recognize_face exact_arith nan_conv [\<lparr>person.name = JStr ''Ann'', descriptor = emb [1 / 2]\<rparr>, \<lparr>person.name = JStr ''Bob'', descriptor = emb [1 / 4]\<rparr>] (JArr [JNum (Fin 0)]) =
     (Recognized (JStr ''Bob'') (confidence exact_arith (Fin (1 / 4))), [\<lparr>person.name = JStr ''Ann'', descriptor = emb [1 / 2]\<rparr>, \<lparr>person.name = JStr ''Bob'', descriptor = emb [1 / 4]\<rparr>])
   \<and> (\<exists>i d. i < length [\<lparr>person.name = JStr ''Ann'', descriptor = emb [1 / 2]\<rparr>, \<lparr>person.name = JStr ''Bob'', descriptor = emb [1 / 4]\<rparr>] \<and> JStr ''Bob'' = person.name ([\<lparr>person.name = JStr ''Ann'', descriptor = emb [1 / 2]\<rparr>, \<lparr>person.name = JStr ''Bob'', descriptor = emb [1 / 4]\<rparr>] ! i)
         \<and> euclideanDistance exact_arith nan_conv (elements (JArr [JNum (Fin 0)]))
             (person.descriptor ([\<lparr>person.name = JStr ''Ann'', descriptor = emb [1 / 2]\<rparr>, \<lparr>person.name = JStr ''Bob'', descriptor = emb [1 / 4]\<rparr>] ! i)) = Inr (Fin d)
         \<and> 0 \<le> d \<and> d < Number_0_6
         \<and> (\<forall>k<length [\<lparr>person.name = JStr ''Ann'', descriptor = emb [1 / 2]\<rparr>, \<lparr>person.name = JStr ''Bob'', descriptor = emb [1 / 4]\<rparr>]. \<forall>dk.
              euclideanDistance exact_arith nan_conv (elements (JArr [JNum (Fin 0)]))
                (person.descriptor ([\<lparr>person.name = JStr ''Ann'', descriptor = emb [1 / 2]\<rparr>, \<lparr>person.name = JStr ''Bob'', descriptor = emb [1 / 4]\<rparr>] ! k)) = Inr dk
                \<longrightarrow> \<not> js_less dk (Fin d))
         \<and> confidence exact_arith (Fin (1 / 4)) = confidence exact_arith (Fin d)
         \<and> confidence exact_arith (Fin (1 / 4)) =
             spec_confidence exact_arith (Fin d) (Fin Number_0_6))
   \<and> \<not> js_less (confidence exact_arith (Fin (1 / 4))) (confidence exact_arith (Fin (1 / 2)))
   \<and> confidence exact_arith (Fin 0) = Fin 1
   \<and> confidence exact_arith (Fin Number_0_6) = Fin 0"
proof -
  have lt: "(0::real) < 1 / 2" "(1::real) / 2 < 1" "(0::real) < 1 / 4" "(1::real) / 4 < 1"
    "(1::real) / 2 < Number_0_6" "(1::real) / 4 < Number_0_6"
    by (simp_all add: Number_0_6_def)
  have d5: "euclideanDistance exact_arith nan_conv [JNum (Fin 0)] (emb [1 / 2]) = Inr (Fin (1 / 2))"
    by (rule euclideanDistance_exact_1 [OF lt(1,2)])
  have d25: "euclideanDistance exact_arith nan_conv [JNum (Fin 0)] (emb [1 / 4]) = Inr (Fin (1 / 4))"
    by (rule euclideanDistance_exact_1 [OF lt(3,4)])
  have "scan exact_arith nan_conv [\<lparr>person.name = JStr ''Ann'', descriptor = emb [1 / 2]\<rparr>, \<lparr>person.name = JStr ''Bob'', descriptor = emb [1 / 4]\<rparr>] [JNum (Fin 0)] =
      Inr \<lparr>bestMatch.name = JStr ''Bob'', distance = Fin (1 / 4)\<rparr>"
    using d5 d25 lt(5,6) by (simp add: scan_def)
  then have ev: "recognize_face exact_arith nan_conv [\<lparr>person.name = JStr ''Ann'', descriptor = emb [1 / 2]\<rparr>, \<lparr>person.name = JStr ''Bob'', descriptor = emb [1 / 4]\<rparr>] (JArr [JNum (Fin 0)]) =
     (Recognized (JStr ''Bob'') (confidence exact_arith (Fin (1 / 4))), [\<lparr>person.name = JStr ''Ann'', descriptor = emb [1 / 2]\<rparr>, \<lparr>person.name = JStr ''Bob'', descriptor = emb [1 / 4]\<rparr>])"
    by (simp add: recognize_face_def)
  note th = confidence_formula [OF number_arith_exact, where conv = nan_conv
      and db = "[\<lparr>person.name = JStr ''Ann'', descriptor = emb [1 / 2]\<rparr>, \<lparr>person.name = JStr ''Bob'', descriptor = emb [1 / 4]\<rparr>]" and req = "JArr [JNum (Fin 0)]" and n = "JStr ''Bob''"
      and c = "confidence exact_arith (Fin (1 / 4))" and db' = "[\<lparr>person.name = JStr ''Ann'', descriptor = emb [1 / 2]\<rparr>, \<lparr>person.name = JStr ''Bob'', descriptor = emb [1 / 4]\<rparr>]"
      and a = "1 / 4" and b = "1 / 2"]
  have rng: "(0::real) \<le> 1 / 4 \<and> (1::real) / 4 \<le> 1 / 2 \<and> (1::real) / 2 \<le> Number_0_6"
    using lt(5) by simp
  have A: "\<exists>i d. i < length [\<lparr>person.name = JStr ''Ann'', descriptor = emb [1 / 2]\<rparr>, \<lparr>person.name = JStr ''Bob'', descriptor = emb [1 / 4]\<rparr>] \<and> JStr ''Bob'' = person.name ([\<lparr>person.name = JStr ''Ann'', descriptor = emb [1 / 2]\<rparr>, \<lparr>person.name = JStr ''Bob'', descriptor = emb [1 / 4]\<rparr>] ! i)
         \<and> euclideanDistance exact_arith nan_conv (elements (JArr [JNum (Fin 0)]))
             (person.descriptor ([\<lparr>person.name = JStr ''Ann'', descriptor = emb [1 / 2]\<rparr>, \<lparr>person.name = JStr ''Bob'', descriptor = emb [1 / 4]\<rparr>] ! i)) = Inr (Fin d)
         \<and> 0 \<le> d \<and> d < Number_0_6
         \<and> (\<forall>k<length [\<lparr>person.name = JStr ''Ann'', descriptor = emb [1 / 2]\<rparr>, \<lparr>person.name = JStr ''Bob'', descriptor = emb [1 / 4]\<rparr>]. \<forall>dk.
              euclideanDistance exact_arith nan_conv (elements (JArr [JNum (Fin 0)]))
                (person.descriptor ([\<lparr>person.name = JStr ''Ann'', descriptor = emb [1 / 2]\<rparr>, \<lparr>person.name = JStr ''Bob'', descriptor = emb [1 / 4]\<rparr>] ! k)) = Inr dk
                \<longrightarrow> \<not> js_less dk (Fin d))
         \<and> confidence exact_arith (Fin (1 / 4)) = confidence exact_arith (Fin d)
         \<and> confidence exact_arith (Fin (1 / 4)) =
             spec_confidence exact_arith (Fin d) (Fin Number_0_6)"
    using th ev by blast
  have B: "\<not> js_less (confidence exact_arith (Fin (1 / 4))) (confidence exact_arith (Fin (1 / 2)))"
    using th rng by blast
  have C: "confidence exact_arith (Fin 0) = Fin 1"
    "confidence exact_arith (Fin Number_0_6) = Fin 0"
    using th by blast+
  show ?thesis using ev A B C by blast
qed

subsection \<open>C9: recognize does not change the database\<close>

text \<open>
  C9. Whatever the request and whatever the answer (a match, no match, status 400 or an
  exception), the database after recognize is the database before it.
\<close>

theorem recognize_face_frame:
  "snd (recognize_face ar conv faceDB req_descriptor) = faceDB"
  by (simp add: recognize_face_def split: sum.splits)

theorem recognize_face_frame_witness:
  "snd (recognize_face exact_arith nan_conv [\<lparr>person.name = JStr ''Ann'', descriptor = emb [1, 0]\<rparr>] (emb [1, 0])) = [\<lparr>person.name = JStr ''Ann'', descriptor = emb [1, 0]\<rparr>]
   \<and> snd (recognize_face exact_arith nan_conv [\<lparr>person.name = JStr ''Ann'', descriptor = emb [1, 0]\<rparr>] (emb [0, 1])) = [\<lparr>person.name = JStr ''Ann'', descriptor = emb [1, 0]\<rparr>]
   \<and> snd (recognize_face exact_arith nan_conv [\<lparr>person.name = JStr ''Ann'', descriptor = emb [1, 0]\<rparr>] JNull) = [\<lparr>person.name = JStr ''Ann'', descriptor = emb [1, 0]\<rparr>]
   \<and> snd (recognize_face exact_arith throwing_conv [\<lparr>person.name = JStr ''Ann'', descriptor = emb [1, 0]\<rparr>] (JArr [JObj [(''toString'', JNull)]]))
       = [\<lparr>person.name = JStr ''Ann'', descriptor = emb [1, 0]\<rparr>]"
  using recognize_face_frame [where ar = exact_arith and conv = nan_conv and faceDB = "[\<lparr>person.name = JStr ''Ann'', descriptor = emb [1, 0]\<rparr>]"
      and req_descriptor = "emb [1, 0]"]
    recognize_face_frame [where ar = exact_arith and conv = nan_conv and faceDB = "[\<lparr>person.name = JStr ''Ann'', descriptor = emb [1, 0]\<rparr>]"
      and req_descriptor = "emb [0, 1]"]
    recognize_face_frame [where ar = exact_arith and conv = nan_conv and faceDB = "[\<lparr>person.name = JStr ''Ann'', descriptor = emb [1, 0]\<rparr>]"
      and req_descriptor = JNull]
    recognize_face_frame [where ar = exact_arith and conv = throwing_conv and faceDB = "[\<lparr>person.name = JStr ''Ann'', descriptor = emb [1, 0]\<rparr>]"
      and req_descriptor = "JArr [JObj [(''toString'', JNull)]]"]
  by simp

subsection \<open>C10: the loop runs over the length of the query\<close>

text \<open>
  C10. The distance reads the first \<open>length q\<close> coordinates of the stored array and no
  other: coordinates of the stored array beyond the length of the query do not
  contribute, and when the stored array is shorter than the query the loop reads past
  its end, which makes the distance \<open>NaN\<close>: always so for arrays of numbers and for a
  conversion that never throws, and otherwise unless a conversion throws.
\<close>

theorem distance_reads_query_length:
  "euclideanDistance ar conv q (JArr r) = euclideanDistance ar conv q (JArr (take (length q) r))
   \<and> (length q \<le> length r \<longrightarrow>
        euclideanDistance ar conv q (JArr (r @ extra)) = euclideanDistance ar conv q (JArr r))
   \<and> (length r < length q \<longrightarrow>
        euclideanDistance ar conv q (JArr r) = Inr NaN \<or>
        euclideanDistance ar conv q (JArr r) = Inl TypeError)
   \<and> (length ys < length xs \<longrightarrow>
        euclideanDistance ar conv (map JNum xs) (JArr (map JNum ys)) = Inr NaN)
   \<and> (length r < length q \<and> (\<forall>v. conv v \<noteq> Inl TypeError) \<longrightarrow>
        euclideanDistance ar conv q (JArr r) = Inr NaN)"
proof (intro conjI impI)
  show "euclideanDistance ar conv q (JArr r) =
      euclideanDistance ar conv q (JArr (take (length q) r))"
    by (simp add: euclideanDistance_take)
next
  assume "length q \<le> length r"
  then have "take (length q) (r @ extra) = take (length q) r" by simp
  then show "euclideanDistance ar conv q (JArr (r @ extra)) = euclideanDistance ar conv q (JArr r)"
    by (metis euclideanDistance_take)
next
  assume "length r < length q"
  then show "euclideanDistance ar conv q (JArr r) = Inr NaN \<or>
      euclideanDistance ar conv q (JArr r) = Inl TypeError"
    by (rule euclideanDistance_short)
next
  assume "length ys < length xs"
  then show "euclideanDistance ar conv (map JNum xs) (JArr (map JNum ys)) = Inr NaN"
    by (rule euclideanDistance_nums_short)
next
  assume "length r < length q \<and> (\<forall>v. conv v \<noteq> Inl TypeError)"
  then show "euclideanDistance ar conv q (JArr r) = Inr NaN"
    using euclideanDistance_arr_short by blast
qed

theorem distance_reads_query_length_witness:
  "euclideanDistance exact_arith nan_conv [JNum (Fin 1)] (JArr ([JNum (Fin 4)] @ [JNum (Fin 7)])) =
     euclideanDistance exact_arith nan_conv [JNum (Fin 1)] (JArr [JNum (Fin 4)])
   \<and> euclideanDistance exact_arith nan_conv [JNum (Fin 1), JNum (Fin 2)] (JArr [JNum (Fin 4)]) =
       Inr NaN"
  using distance_reads_query_length [where q = "[JNum (Fin 1)]" and r = "[JNum (Fin 4)]"
      and ar = exact_arith and conv = nan_conv and extra = "[JNum (Fin 7)]"
      and xs = "[Fin 1, Fin 2]" and ys = "[Fin 4]"]
  by (simp del: all_simps)

end
